theory Spec2Isabelle
  imports Main "HOL-Library.Word" "HOL-Library.Sublist"
begin

section \<open>The robot-control server: data model\<close>

text \<open>
  The program is one C++ file, \<^verbatim>\<open>main.cpp\<close>. A \<^verbatim>\<open>ClientController\<close> owns one connected
  socket and drives one robot. Everything the controller does to the outside world is a
  \<^verbatim>\<open>read\<close>, a \<^verbatim>\<open>send\<close> or a \<^verbatim>\<open>setsockopt\<close> on that socket, so a session is modelled by
  explicit state passing over the record \<open>session\<close> below.

  Environment. The bytes the peer will deliver are a finite list of pairs \<open>(d, c)\<close>: the byte
  \<open>c\<close> becomes available after the read has blocked for \<open>d\<close> whole seconds. A read returns
  \<open>-1\<close> when the byte is not there within the receive timeout, and when the list is
  exhausted. The peer does not close its end (a read never returns \<open>0\<close>) and every
  \<^verbatim>\<open>send\<close> succeeds. Text written to \<^verbatim>\<open>std::cout\<close> and \<^verbatim>\<open>std::cerr\<close> is not modelled.
  Plain \<^verbatim>\<open>char\<close> is signed, as on the x86 Linux targets of this POSIX program.
\<close>

datatype Direction = UNKNOWN | UP | RIGHT | DOWN | LEFT

text \<open>The enumerators' values, used by \<^verbatim>\<open>to - direction\<close> in \<^verbatim>\<open>rotateTo\<close>.\<close>

fun dirval :: "Direction \<Rightarrow> int" where
  "dirval UNKNOWN = 0"
| "dirval UP = 1"
| "dirval RIGHT = 2"
| "dirval DOWN = 3"
| "dirval LEFT = 4"

record Position =
  pos_x :: int
  pos_y :: int

datatype ReadMessageState = OPEN | CLOSE

text \<open>
  \<open>RuntimeError\<close> is \<^verbatim>\<open>std::runtime_error\<close>, the only exception
  \<^verbatim>\<open>handleClientConnection\<close> catches. \<open>LogicError\<close> is \<^verbatim>\<open>std::logic_error\<close> together with
  its subclasses \<^verbatim>\<open>std::invalid_argument\<close> and \<^verbatim>\<open>std::out_of_range\<close> thrown by
  \<^verbatim>\<open>std::stoi\<close>. \<open>Indeterminate\<close> marks the read of a local \<^verbatim>\<open>int\<close> that was never
  assigned.
\<close>

datatype error = RuntimeError string | LogicError string | Indeterminate

record session =
  input :: "(nat \<times> char) list"
  sent :: "string list"
  rcvtimeo :: nat
  position :: Position
  direction :: Direction

type_synonym 'a result = "(error \<times> session) + ('a \<times> session)"
type_synonym status = "(error \<times> session) + session"

subsection \<open>Constants of the source\<close>

definition SERVER_KEY :: "16 word" where "SERVER_KEY = 54621"
definition CLIENT_KEY :: "16 word" where "CLIENT_KEY = 45328"

definition TIMEOUT :: nat where "TIMEOUT = 1"
definition TIMEOUT_RECHARGING :: nat where "TIMEOUT_RECHARGING = 5"

definition TERMINATING_FIRST_CHAR :: char where "TERMINATING_FIRST_CHAR = CHR 0x07"
definition TERMINATING_SECOND_CHAR :: char where "TERMINATING_SECOND_CHAR = CHR 0x08"
definition TERMINATING_SEQUENCE_LENGTH :: int where "TERMINATING_SEQUENCE_LENGTH = 2"

definition SERVER_MOVE :: string where "SERVER_MOVE = ''102 MOVE''"
definition SERVER_TURN_LEFT :: string where "SERVER_TURN_LEFT = ''103 TURN LEFT''"
definition SERVER_TURN_RIGHT :: string where "SERVER_TURN_RIGHT = ''104 TURN RIGHT''"
definition SERVER_PICK_UP :: string where "SERVER_PICK_UP = ''105 GET MESSAGE''"
definition SERVER_LOGOUT :: string where "SERVER_LOGOUT = ''106 LOGOUT''"
definition SERVER_OK :: string where "SERVER_OK = ''200 OK''"
definition SERVER_LOGIN_FAILED :: string where "SERVER_LOGIN_FAILED = ''300 LOGIN FAILED''"
definition SERVER_SYNTAX_ERROR :: string where "SERVER_SYNTAX_ERROR = ''301 SYNTAX ERROR''"
definition SERVER_LOGIC_ERROR :: string where "SERVER_LOGIC_ERROR = ''302 LOGIC ERROR''"

definition CLIENT_USERNAME_LENGTH :: int where "CLIENT_USERNAME_LENGTH = 10"
definition CLIENT_CONFIRMATION_LENGTH :: int where "CLIENT_CONFIRMATION_LENGTH = 10"
definition CLIENT_OK_LENGTH :: int where "CLIENT_OK_LENGTH = 10"
definition CLIENT_RECHARGING :: string where "CLIENT_RECHARGING = ''RECHARGING''"
definition CLIENT_FULL_POWER :: string where "CLIENT_FULL_POWER = ''FULL POWER''"
definition CLIENT_FULL_POWER_LENGTH :: int where "CLIENT_FULL_POWER_LENGTH = 10"
definition CLIENT_MESSAGE_LENGTH :: int where "CLIENT_MESSAGE_LENGTH = 98"

definition TARGET_X :: int where "TARGET_X = - 2"
definition TARGET_Y :: int where "TARGET_Y = 2"

section \<open>The hash of the handshake\<close>

text \<open>
  The value a \<^verbatim>\<open>char\<close> has after integral promotion: a byte from \<open>0x80\<close> on is negative.
\<close>

definition schar :: "char \<Rightarrow> int" where
  "schar c = (if (of_char c :: nat) < 128 then int (of_char c) else int (of_char c) - 256)"

text \<open>
  \<^verbatim>\<open>computeHash\<close>: \<^verbatim>\<open>result\<close> is a \<^verbatim>\<open>uint16_t\<close>; \<^verbatim>\<open>result += it\<close> adds the promoted
  \<^verbatim>\<open>char\<close> and truncates to 16 bits, as do \<^verbatim>\<open>result *= 1000\<close> and \<^verbatim>\<open>result += key\<close>.
\<close>

definition computeHash :: "16 word \<Rightarrow> string \<Rightarrow> 16 word" where
  "computeHash key value =
     fold (\<lambda>it result. result + word_of_int (schar it)) value 0 * 1000 + key"

text \<open>The sum the specification names, over the bytes read as unsigned values.\<close>

definition sum_of_bytes :: "string \<Rightarrow> nat" where
  "sum_of_bytes u = (\<Sum>c\<leftarrow>u. of_char c)"

text \<open>The same sum over the bytes read as signed values.\<close>

definition sum_of_schars :: "string \<Rightarrow> int" where
  "sum_of_schars u = (\<Sum>c\<leftarrow>u. schar c)"

section \<open>The frame codec\<close>

definition sendResponse :: "string \<Rightarrow> session \<Rightarrow> session" where
  "sendResponse msg s =
     s\<lparr>sent := sent s @ [msg @ [TERMINATING_FIRST_CHAR, TERMINATING_SECOND_CHAR]]\<rparr>"

definition delivered :: "session \<Rightarrow> nat \<Rightarrow> bool" where
  "delivered s d = (rcvtimeo s = 0 \<or> d < rcvtimeo s)"

definition switchBuffer ::
  "char \<Rightarrow> ReadMessageState \<Rightarrow> string \<Rightarrow> ReadMessageState \<times> string \<times> bool" where
  "switchBuffer buffer state message =
     (if buffer = TERMINATING_FIRST_CHAR then
        (if state = OPEN then (CLOSE, message, False)
         else (state, message @ [TERMINATING_FIRST_CHAR], False))
      else if buffer = TERMINATING_SECOND_CHAR then
        (if state = OPEN then (state, message @ [TERMINATING_SECOND_CHAR], False)
         else (state, message, True))
      else
        (if state = CLOSE then (OPEN, message @ [TERMINATING_FIRST_CHAR, buffer], False)
         else (state, message @ [buffer], False)))"

fun readLoop ::
  "int \<Rightarrow> 16 word \<Rightarrow> ReadMessageState \<Rightarrow> string \<Rightarrow> session \<Rightarrow> (nat \<times> char) list
     \<Rightarrow> string result" where
  "readLoop maxMsgSize msgLength state message s [] =
     (if maxMsgSize + TERMINATING_SEQUENCE_LENGTH < uint (msgLength + 1)
      then Inl (RuntimeError ''Message size out of bounds'',
                sendResponse SERVER_SYNTAX_ERROR (s\<lparr>input := []\<rparr>))
      else Inl (RuntimeError ''Timeout fired'', s\<lparr>input := []\<rparr>))"
| "readLoop maxMsgSize msgLength state message s ((d, buffer) # rest) =
     (if maxMsgSize + TERMINATING_SEQUENCE_LENGTH < uint (msgLength + 1)
      then Inl (RuntimeError ''Message size out of bounds'',
                sendResponse SERVER_SYNTAX_ERROR
                  (s\<lparr>input := (if delivered s d then rest else (d, buffer) # rest)\<rparr>))
      else if \<not> delivered s d
      then Inl (RuntimeError ''Timeout fired'', s\<lparr>input := (d, buffer) # rest\<rparr>)
      else
        (case switchBuffer buffer state message of
           (state', message', messageDone) \<Rightarrow>
             if (maxMsgSize + 1 = uint (msgLength + 1) \<and> state' = OPEN)
                \<or> (maxMsgSize + 2 = uint (msgLength + 1) \<and> \<not> messageDone)
             then Inl (RuntimeError ''Message size out of bounds'',
                       sendResponse SERVER_SYNTAX_ERROR (s\<lparr>input := rest\<rparr>))
             else if messageDone then Inr (message', s\<lparr>input := rest\<rparr>)
             else readLoop maxMsgSize (msgLength + 1) state' message' s rest))"

definition readFromSocket :: "int \<Rightarrow> session \<Rightarrow> string result" where
  "readFromSocket maxMsgSize s = readLoop maxMsgSize 0 OPEN [] s (input s)"

definition readFromSocketWithWait :: "int \<Rightarrow> nat \<Rightarrow> session \<Rightarrow> string result" where
  "readFromSocketWithWait maxMsgSize timeout s =
     readFromSocket maxMsgSize (s\<lparr>rcvtimeo := timeout\<rparr>)"

lemma readLoop_consumes:
  "readLoop maxMsgSize msgLength state message s evs = Inr (m, s')
     \<Longrightarrow> \<exists>k < length evs. s' = s\<lparr>input := drop (Suc k) evs\<rparr>"
proof (induction evs arbitrary: msgLength state message)
  case Nil
  then show ?case by (simp split: if_splits)
next
  case (Cons ev evs)
  obtain d buffer where ev: "ev = (d, buffer)" by (cases ev)
  obtain st' msg' dn where sw: "switchBuffer buffer state message = (st', msg', dn)"
    by (cases "switchBuffer buffer state message")
  show ?case
  proof (cases dn)
    case True
    with Cons.prems ev sw have "s' = s\<lparr>input := evs\<rparr>"
      by (simp split: if_splits)
    then show ?thesis by auto
  next
    case False
    with Cons.prems ev sw
    have "readLoop maxMsgSize (msgLength + 1) st' msg' s evs = Inr (m, s')"
      by (simp split: if_splits)
    from Cons.IH [OF this] obtain k where "k < length evs" "s' = s\<lparr>input := drop (Suc k) evs\<rparr>"
      by blast
    then show ?thesis by (intro exI [of _ "Suc k"]) simp
  qed
qed

lemma readFromSocketWithWait_consumes:
  assumes "readFromSocketWithWait maxMsgSize timeout s = Inr (m, s')"
  shows "length (input s') < length (input s)"
proof -
  from assms obtain k where "k < length (input s)"
    and "s' = s\<lparr>rcvtimeo := timeout, input := drop (Suc k) (input s)\<rparr>"
    unfolding readFromSocketWithWait_def readFromSocket_def
    by (auto dest!: readLoop_consumes)
  then show ?thesis by simp
qed

function readMsg :: "int \<Rightarrow> session \<Rightarrow> string result" where
  "readMsg maxMsgSize s =
     (case readFromSocketWithWait maxMsgSize TIMEOUT s of
        Inl e \<Rightarrow> Inl e
      | Inr (message, s1) \<Rightarrow>
          if message = CLIENT_RECHARGING then
            (case readFromSocketWithWait CLIENT_FULL_POWER_LENGTH TIMEOUT_RECHARGING s1 of
               Inl e \<Rightarrow> Inl e
             | Inr (message2, s2) \<Rightarrow>
                 if message2 \<noteq> CLIENT_FULL_POWER
                 then Inl (RuntimeError ''Expected full power message.'',
                           sendResponse SERVER_LOGIC_ERROR s2)
                 else readMsg maxMsgSize s2)
          else Inr (message, s1))"
  by pat_completeness auto
termination
proof (relation "measure (\<lambda>(maxMsgSize, s). length (input s))", goal_cases)
  case 1
  show ?case by simp
next
  case (2 maxMsgSize s x2 message s1 x2a message2 s2)
  then show ?case
    by (auto dest!: readFromSocketWithWait_consumes)
qed

subsection \<open>Library functions the program calls\<close>

definition isdigit :: "char \<Rightarrow> bool" where
  "isdigit c = (48 \<le> (of_char c :: nat) \<and> (of_char c :: nat) \<le> 57)"

definition isspace :: "char \<Rightarrow> bool" where
  "isspace c = ((of_char c :: nat) = 32 \<or> (9 \<le> (of_char c :: nat) \<and> (of_char c :: nat) \<le> 13))"

definition INT_MAX :: int where "INT_MAX = 2147483647"
definition INT_MIN :: int where "INT_MIN = - 2147483648"

definition decimal :: "string \<Rightarrow> nat" where
  "decimal ds = fold (\<lambda>c n. 10 * n + (of_char c - 48)) ds 0"

definition digit_char :: "nat \<Rightarrow> char" where
  "digit_char n = ''0123456789'' ! n"

fun to_string :: "nat \<Rightarrow> string" where
  "to_string n =
     (if n < 10 then [digit_char n]
      else to_string (n div 10) @ [digit_char (n mod 10)])"

declare to_string.simps [simp del]

fun sign_prefix :: "string \<Rightarrow> bool \<times> string" where
  "sign_prefix [] = (False, [])"
| "sign_prefix (c # cs) =
     (if c = CHR ''-'' then (True, cs) else if c = CHR ''+'' then (False, cs)
      else (False, c # cs))"

definition stoi :: "string \<Rightarrow> error + int" where
  "stoi str =
     (case sign_prefix (dropWhile isspace str) of
        (neg, r) \<Rightarrow>
          let ds = takeWhile isdigit r in
          if ds = [] then Inl (LogicError ''stoi'')
          else
            let v = (if neg then - int (decimal ds) else int (decimal ds)) in
            if v < INT_MIN \<or> INT_MAX < v then Inl (LogicError ''stoi'') else Inr v)"

record sstream =
  buf :: string
  eofbit :: bool
  failbit :: bool

definition good :: "sstream \<Rightarrow> bool" where
  "good ss = (\<not> eofbit ss \<and> \<not> failbit ss)"

definition extract_string :: "sstream \<Rightarrow> string \<Rightarrow> sstream \<times> string" where
  "extract_string ss var =
     (if \<not> good ss then (ss\<lparr>failbit := True\<rparr>, var)
      else
        let r = dropWhile isspace (buf ss) in
        if r = [] then (ss\<lparr>buf := [], eofbit := True, failbit := True\<rparr>, var)
        else
          let r' = dropWhile (\<lambda>c. \<not> isspace c) r in
          (ss\<lparr>buf := r', eofbit := (r' = [])\<rparr>, takeWhile (\<lambda>c. \<not> isspace c) r))"

definition extract_int :: "sstream \<Rightarrow> int option \<Rightarrow> sstream \<times> int option" where
  "extract_int ss var =
     (if \<not> good ss then (ss\<lparr>failbit := True\<rparr>, var)
      else
        let r = dropWhile isspace (buf ss) in
        if r = [] then (ss\<lparr>buf := [], eofbit := True, failbit := True\<rparr>, var)
        else
          (case sign_prefix r of
             (neg, r1) \<Rightarrow>
               let ds = takeWhile isdigit r1;
                   r2 = dropWhile isdigit r1;
                   v = (if neg then - int (decimal ds) else int (decimal ds))
               in
               if ds = [] then (ss\<lparr>buf := r2, eofbit := (r2 = []), failbit := True\<rparr>, Some 0)
               else if INT_MAX < v
               then (ss\<lparr>buf := r2, eofbit := (r2 = []), failbit := True\<rparr>, Some INT_MAX)
               else if v < INT_MIN
               then (ss\<lparr>buf := r2, eofbit := (r2 = []), failbit := True\<rparr>, Some INT_MIN)
               else (ss\<lparr>buf := r2, eofbit := (r2 = [])\<rparr>, Some v)))"

subsection \<open>The handshake\<close>

definition authenticate :: "session \<Rightarrow> status" where
  "authenticate s =
     (case readMsg CLIENT_USERNAME_LENGTH s of
        Inl e \<Rightarrow> Inl e
      | Inr (userName, s1) \<Rightarrow>
          let serverHash = to_string (unat (computeHash SERVER_KEY userName)) in
          (case readMsg CLIENT_CONFIRMATION_LENGTH (sendResponse serverHash s1) of
             Inl e \<Rightarrow> Inl e
           | Inr (clientHash, s2) \<Rightarrow>
               if length clientHash > 5
               then Inl (RuntimeError ''Authentication failed.'',
                         sendResponse SERVER_SYNTAX_ERROR s2)
               else if list_ex (\<lambda>c. \<not> isdigit c) clientHash
               then Inl (RuntimeError ''Authentication failed.'',
                         sendResponse SERVER_SYNTAX_ERROR s2)
               else
                 (case stoi clientHash of
                    Inl e \<Rightarrow> Inl (e, s2)
                  | Inr v \<Rightarrow>
                      let clientHashValue = (word_of_int v :: 16 word) in
                      if clientHashValue \<noteq> computeHash CLIENT_KEY userName
                      then Inl (RuntimeError ''Authentication failed.'',
                                sendResponse SERVER_LOGIN_FAILED s2)
                      else Inr (sendResponse SERVER_OK s2))))"

subsection \<open>Position and heading\<close>

definition positionEquals :: "session \<Rightarrow> Position \<Rightarrow> bool" where
  "positionEquals s target =
     (pos_x (position s) = pos_x target \<and> pos_y (position s) = pos_y target)"

definition updatePosition :: "string \<Rightarrow> session \<Rightarrow> status" where
  "updatePosition message s =
     (case extract_string \<lparr>buf = message, eofbit = False, failbit = False\<rparr> [] of
        (ss1, type) \<Rightarrow>
          let fail1 = (eofbit ss1 \<or> type \<noteq> ''OK'') in
          (case extract_int ss1 None of
             (ss2, x) \<Rightarrow>
               let fail2 = (fail1 \<or> eofbit ss2) in
               (case extract_int ss2 None of
                  (ss3, y) \<Rightarrow>
                    let fail3 = (fail2 \<or> \<not> eofbit ss3) in
                    if fail3
                    then Inl (RuntimeError ''Confirm message not valid.'',
                              sendResponse SERVER_SYNTAX_ERROR s)
                    else
                      (case (x, y) of
                         (Some xv, Some yv) \<Rightarrow>
                           Inr (s\<lparr>position := \<lparr>pos_x = xv, pos_y = yv\<rparr>\<rparr>)
                       | _ \<Rightarrow> Inl (Indeterminate, s)))))"

definition updateDirection :: "Position \<Rightarrow> Position \<Rightarrow> session \<Rightarrow> status" where
  "updateDirection lastPosition newPosition s =
     (if pos_x lastPosition = pos_x newPosition then
        (if pos_y lastPosition < pos_y newPosition then Inr (s\<lparr>direction := UP\<rparr>)
         else Inr (s\<lparr>direction := DOWN\<rparr>))
      else if pos_y lastPosition = pos_y newPosition then
        (if pos_x lastPosition < pos_x newPosition then Inr (s\<lparr>direction := RIGHT\<rparr>)
         else Inr (s\<lparr>direction := LEFT\<rparr>))
      else Inl (LogicError ''Same position in updateDirection'', s))"

declare readMsg.simps [simp del]

lemma readMsg_consumes:
  "readMsg maxMsgSize s = Inr (m, s') \<Longrightarrow> length (input s') < length (input s)"
proof (induction maxMsgSize s rule: readMsg.induct)
  case (1 maxMsgSize s)
  from "1.prems" obtain message s1
    where r1: "readFromSocketWithWait maxMsgSize TIMEOUT s = Inr (message, s1)"
    by (subst (asm) readMsg.simps) (auto split: sum.splits)
  note l1 = readFromSocketWithWait_consumes [OF r1]
  show ?case
  proof (cases "message = CLIENT_RECHARGING")
    case False
    with "1.prems" r1 have "s' = s1"
      by (subst (asm) readMsg.simps) simp
    with l1 show ?thesis by simp
  next
    case True
    with "1.prems" r1 obtain message2 s2
      where r2: "readFromSocketWithWait CLIENT_FULL_POWER_LENGTH TIMEOUT_RECHARGING s1
                   = Inr (message2, s2)"
        and fp: "message2 = CLIENT_FULL_POWER"
        and rec: "readMsg maxMsgSize s2 = Inr (m, s')"
      by (subst (asm) readMsg.simps) (auto split: sum.splits if_splits)
    note l2 = readFromSocketWithWait_consumes [OF r2]
    have "length (input s') < length (input s2)"
      using "1.IH" [OF r1 _ True r2 _ _ rec] fp by simp
    with l1 l2 show ?thesis by simp
  qed
qed

lemma input_sendResponse [simp]: "input (sendResponse msg s) = input s"
  by (simp add: sendResponse_def)

lemma updatePosition_input:
  "updatePosition message s = Inr s' \<Longrightarrow> input s' = input s"
  by (auto simp: updatePosition_def Let_def split: prod.splits if_splits option.splits)

function moveRobot :: "session \<Rightarrow> status" where
  "moveRobot s =
     (let lastPosition = position s in
      case readMsg CLIENT_OK_LENGTH (sendResponse SERVER_MOVE s) of
        Inl e \<Rightarrow> Inl e
      | Inr (pos, s1) \<Rightarrow>
          (case updatePosition pos s1 of
             Inl e \<Rightarrow> Inl e
           | Inr s2 \<Rightarrow> if positionEquals s2 lastPosition then moveRobot s2 else Inr s2))"
  by pat_completeness auto
termination
proof (relation "measure (\<lambda>s. length (input s))", goal_cases)
  case 1
  show ?case by simp
next
  case (2 s lastPosition x2 pos s1 s2)
  then show ?case
    by (auto dest!: readMsg_consumes updatePosition_input)
qed

declare moveRobot.simps [simp del]

lemma moveRobot_consumes:
  "moveRobot s = Inr s' \<Longrightarrow> length (input s') < length (input s)"
proof (induction s rule: moveRobot.induct)
  case (1 s)
  from "1.prems" obtain pos s1 s2
    where r: "readMsg CLIENT_OK_LENGTH (sendResponse SERVER_MOVE s) = Inr (pos, s1)"
      and u: "updatePosition pos s1 = Inr s2"
    by (subst (asm) moveRobot.simps) (auto simp: Let_def split: sum.splits)
  from readMsg_consumes [OF r] updatePosition_input [OF u]
  have l: "length (input s2) < length (input s)" by simp
  show ?case
  proof (cases "positionEquals s2 (position s)")
    case True
    with "1.prems" r u have "moveRobot s2 = Inr s'"
      by (subst (asm) moveRobot.simps) (simp add: Let_def)
    from "1.IH" [OF refl r refl u True this] l
    show ?thesis by simp
  next
    case False
    with "1.prems" r u have "s' = s2"
      by (subst (asm) moveRobot.simps) (simp add: Let_def)
    with l show ?thesis by simp
  qed
qed

definition rotateLeft :: "session \<Rightarrow> status" where
  "rotateLeft s =
     (case readMsg CLIENT_OK_LENGTH (sendResponse SERVER_TURN_LEFT s) of
        Inl e \<Rightarrow> Inl e
      | Inr (pos, s1) \<Rightarrow>
          (case updatePosition pos s1 of
             Inl e \<Rightarrow> Inl e
           | Inr s2 \<Rightarrow>
               Inr (case direction s2 of
                      UP \<Rightarrow> s2\<lparr>direction := LEFT\<rparr>
                    | RIGHT \<Rightarrow> s2\<lparr>direction := UP\<rparr>
                    | DOWN \<Rightarrow> s2\<lparr>direction := RIGHT\<rparr>
                    | LEFT \<Rightarrow> s2\<lparr>direction := DOWN\<rparr>
                    | UNKNOWN \<Rightarrow> s2)))"

definition rotateRight :: "session \<Rightarrow> status" where
  "rotateRight s =
     (case readMsg CLIENT_OK_LENGTH (sendResponse SERVER_TURN_RIGHT s) of
        Inl e \<Rightarrow> Inl e
      | Inr (pos, s1) \<Rightarrow>
          (case updatePosition pos s1 of
             Inl e \<Rightarrow> Inl e
           | Inr s2 \<Rightarrow>
               Inr (case direction s2 of
                      UP \<Rightarrow> s2\<lparr>direction := RIGHT\<rparr>
                    | RIGHT \<Rightarrow> s2\<lparr>direction := DOWN\<rparr>
                    | DOWN \<Rightarrow> s2\<lparr>direction := LEFT\<rparr>
                    | LEFT \<Rightarrow> s2\<lparr>direction := UP\<rparr>
                    | UNKNOWN \<Rightarrow> s2)))"

lemma rotateLeft_consumes:
  "rotateLeft s = Inr s' \<Longrightarrow> length (input s') < length (input s)"
  by (auto simp: rotateLeft_def split: sum.splits Direction.splits
           dest!: readMsg_consumes updatePosition_input)

lemma rotateRight_consumes:
  "rotateRight s = Inr s' \<Longrightarrow> length (input s') < length (input s)"
  by (auto simp: rotateRight_def split: sum.splits Direction.splits
           dest!: readMsg_consumes updatePosition_input)

function rotateTo :: "Direction \<Rightarrow> session \<Rightarrow> status" where
  "rotateTo to s =
     (if direction s \<noteq> to then
        (let next' = dirval to - dirval (direction s) in
         case (if next' > 0 then rotateRight s else rotateLeft s) of
           Inl e \<Rightarrow> Inl e
         | Inr s1 \<Rightarrow> rotateTo to s1)
      else Inr s)"
  by pat_completeness auto
termination
proof (relation "measure (\<lambda>(to, s). length (input s))", goal_cases)
  case 1
  show ?case by simp
next
  case (2 to s next' s1)
  then show ?case
    by (auto dest!: rotateLeft_consumes rotateRight_consumes split: if_splits)
qed

declare rotateTo.simps [simp del]

lemma rotateTo_input:
  "rotateTo to s = Inr s' \<Longrightarrow> length (input s') \<le> length (input s)"
proof (induction to s rule: rotateTo.induct)
  case (1 to s)
  show ?case
  proof (cases "direction s = to")
    case True
    with "1.prems" show ?thesis by (subst (asm) rotateTo.simps) simp
  next
    case False
    with "1.prems" obtain s1
      where t: "(if dirval to - dirval (direction s) > 0 then rotateRight s else rotateLeft s)
                  = Inr s1"
        and rec: "rotateTo to s1 = Inr s'"
      by (subst (asm) rotateTo.simps) (auto simp: Let_def split: sum.splits)
    from t have "length (input s1) < length (input s)"
      by (auto dest!: rotateLeft_consumes rotateRight_consumes split: if_splits)
    with "1.IH" [OF False refl t rec] show ?thesis by simp
  qed
qed

definition navigate :: "Position \<Rightarrow> session \<Rightarrow> status" where
  "navigate target s =
     (case (if pos_y (position s) - pos_y target > 0 then rotateTo DOWN s
            else if pos_y (position s) - pos_y target < 0 then rotateTo UP s
            else if pos_x (position s) - pos_x target < 0 then rotateTo RIGHT s
            else rotateTo LEFT s) of
        Inl e \<Rightarrow> Inl e
      | Inr s1 \<Rightarrow> moveRobot s1)"

lemma navigate_consumes:
  "navigate target s = Inr s' \<Longrightarrow> length (input s') < length (input s)"
  by (auto simp: navigate_def split: sum.splits if_splits
           dest!: rotateTo_input moveRobot_consumes)

definition getPosition :: "session \<Rightarrow> status" where
  "getPosition s = moveRobot s"

definition getDirection :: "session \<Rightarrow> status" where
  "getDirection s =
     (let lastPosition = position s in
      case moveRobot s of
        Inl e \<Rightarrow> Inl e
      | Inr s1 \<Rightarrow> updateDirection lastPosition (position s1) s1)"

function navigateLoop :: "Position \<Rightarrow> session \<Rightarrow> status" where
  "navigateLoop target s =
     (if \<not> positionEquals s target then
        (case navigate target s of
           Inl e \<Rightarrow> Inl e
         | Inr s1 \<Rightarrow> navigateLoop target s1)
      else Inr s)"
  by pat_completeness auto
termination
proof (relation "measure (\<lambda>(target, s). length (input s))", goal_cases)
  case 1
  show ?case by simp
next
  case (2 target s s1)
  then show ?case by (auto dest!: navigate_consumes)
qed

declare navigateLoop.simps [simp del]

definition pickSecretMsg :: "session \<Rightarrow> bool result" where
  "pickSecretMsg s =
     (case readMsg CLIENT_MESSAGE_LENGTH (sendResponse SERVER_PICK_UP s) of
        Inl e \<Rightarrow> Inl e
      | Inr (secretMsg, s1) \<Rightarrow> Inr (secretMsg \<noteq> [], s1))"

lemma pickSecretMsg_consumes:
  "pickSecretMsg s = Inr (found, s') \<Longrightarrow> length (input s') < length (input s)"
  by (auto simp: pickSecretMsg_def split: sum.splits dest!: readMsg_consumes)

text \<open>C++ integer division and remainder truncate towards zero.\<close>

definition cdiv :: "int \<Rightarrow> int \<Rightarrow> int" where
  "cdiv a b = sgn a * sgn b * (\<bar>a\<bar> div \<bar>b\<bar>)"

definition cmod :: "int \<Rightarrow> int \<Rightarrow> int" where
  "cmod a b = a - b * cdiv a b"

definition nextTarget :: "Position \<Rightarrow> Position" where
  "nextTarget p =
     (let x = cmod (pos_x p - TARGET_X) 5;
          y = (pos_y p - TARGET_Y) * (- 1);
          step = y * 5 + (if cmod y 2 \<noteq> 0 then 4 - x else x) + 1
      in \<lparr>pos_x = (if cmod (cdiv step 5) 2 \<noteq> 0 then 4 - cmod step 5 + TARGET_X
                   else cmod step 5 + TARGET_X),
          pos_y = TARGET_Y - cdiv step 5\<rparr>)"

function scanLoop :: "session \<Rightarrow> status" where
  "scanLoop s =
     (case pickSecretMsg s of
        Inl e \<Rightarrow> Inl e
      | Inr (found, s1) \<Rightarrow>
          if \<not> found then
            (case navigate (nextTarget (position s1)) s1 of
               Inl e \<Rightarrow> Inl e
             | Inr s2 \<Rightarrow> scanLoop s2)
          else Inr s1)"
  by pat_completeness auto
termination
proof (relation "measure (\<lambda>s. length (input s))", goal_cases)
  case 1
  show ?case by simp
next
  case (2 s x2 found s1 s2)
  then show ?case
    by (auto dest!: pickSecretMsg_consumes navigate_consumes)
qed

declare scanLoop.simps [simp del]

definition tryBlock :: "session \<Rightarrow> status" where
  "tryBlock s =
     (let target = \<lparr>pos_x = TARGET_X, pos_y = TARGET_Y\<rparr> in
      case authenticate s of
        Inl e \<Rightarrow> Inl e
      | Inr s1 \<Rightarrow>
          (case getPosition s1 of
             Inl e \<Rightarrow> Inl e
           | Inr s2 \<Rightarrow>
               (case (if \<not> positionEquals s2 target then
                        (case getDirection s2 of
                           Inl e \<Rightarrow> Inl e
                         | Inr s3 \<Rightarrow> navigateLoop target s3)
                      else Inr s2) of
                  Inl e \<Rightarrow> Inl e
                | Inr s4 \<Rightarrow>
                    (case scanLoop s4 of
                       Inl e \<Rightarrow> Inl e
                     | Inr s5 \<Rightarrow> Inr (sendResponse SERVER_LOGOUT s5)))))"

definition handleClientConnection :: "session \<Rightarrow> status" where
  "handleClientConnection s =
     (case tryBlock s of
        Inl (RuntimeError what, s') \<Rightarrow> Inr s'
      | Inl (e, s') \<Rightarrow> Inl (e, s')
      | Inr s' \<Rightarrow> Inr s')"

definition ClientController :: "(nat \<times> char) list \<Rightarrow> session" where
  "ClientController bytes =
     \<lparr>input = bytes, sent = [], rcvtimeo = 0,
      position = \<lparr>pos_x = 0, pos_y = 0\<rparr>, direction = UNKNOWN\<rparr>"

definition frame :: "string \<Rightarrow> (nat \<times> char) list" where
  "frame p = map (Pair 0) (p @ [TERMINATING_FIRST_CHAR, TERMINATING_SECOND_CHAR])"

text \<open>
  The session a run ends in, whether it returned or threw: what was sent is read off it.
\<close>
definition outcome :: "status \<Rightarrow> session" where
  "outcome r = (case r of Inl (e, s) \<Rightarrow> s | Inr s \<Rightarrow> s)"

subsection \<open>Vocabulary for the codec's properties\<close>

text \<open>A payload that holds the two terminator bytes next to each other, in order.\<close>

fun has_terminator :: "string \<Rightarrow> bool" where
  "has_terminator (a # b # cs) =
     ((a = TERMINATING_FIRST_CHAR \<and> b = TERMINATING_SECOND_CHAR) \<or> has_terminator (b # cs))"
| "has_terminator cs = False"

text \<open>
  What the reader has taken in so far: the message, and the first terminator byte it holds
  back while in state \<open>CLOSE\<close>.
\<close>

definition pend :: "ReadMessageState \<Rightarrow> string \<Rightarrow> string" where
  "pend state message =
     (if state = CLOSE then message @ [TERMINATING_FIRST_CHAR] else message)"

text \<open>
  The reader of the specification, written from its words (section 4.1) to be compared with
  \<open>readFromSocket\<close>. The recognizer: in state open, the first terminator byte moves to
  close, any other byte is appended; in state close, the second terminator byte completes
  the frame, the first terminator byte is appended and the state stays close, any other byte
  is appended after the pending first terminator byte and the state returns to open. The
  size policy: the reader aborts, after sending \<open>301 SYNTAX ERROR\<close>, when
  \<open>max_payload + 1\<close> bytes have been read and the recognizer is still in open, or when
  \<open>max_payload + 2\<close> bytes have been read and the frame is not complete. The count of
  bytes read is a natural number.
\<close>

fun recognizer :: "ReadMessageState \<Rightarrow> char \<Rightarrow> string \<Rightarrow> ReadMessageState \<times> string \<times> bool" where
  "recognizer OPEN c payload =
     (if c = TERMINATING_FIRST_CHAR then (CLOSE, payload, False)
      else (OPEN, payload @ [c], False))"
| "recognizer CLOSE c payload =
     (if c = TERMINATING_SECOND_CHAR then (CLOSE, payload, True)
      else if c = TERMINATING_FIRST_CHAR then (CLOSE, payload @ [TERMINATING_FIRST_CHAR], False)
      else (OPEN, payload @ [TERMINATING_FIRST_CHAR, c], False))"

fun read_frame_loop ::
  "nat \<Rightarrow> nat \<Rightarrow> ReadMessageState \<Rightarrow> string \<Rightarrow> session \<Rightarrow> (nat \<times> char) list
     \<Rightarrow> string result" where
  "read_frame_loop max_payload n st payload s [] =
     Inl (RuntimeError ''Timeout fired'', s\<lparr>input := []\<rparr>)"
| "read_frame_loop max_payload n st payload s ((d, c) # rest) =
     (if \<not> delivered s d then Inl (RuntimeError ''Timeout fired'', s\<lparr>input := (d, c) # rest\<rparr>)
      else
        (case recognizer st c payload of
           (st', payload', complete) \<Rightarrow>
             if (Suc n = max_payload + 1 \<and> st' = OPEN) \<or> (Suc n = max_payload + 2 \<and> \<not> complete)
             then Inl (RuntimeError ''Message size out of bounds'',
                       sendResponse SERVER_SYNTAX_ERROR (s\<lparr>input := rest\<rparr>))
             else if complete then Inr (payload', s\<lparr>input := rest\<rparr>)
             else read_frame_loop max_payload (Suc n) st' payload' s rest))"

definition read_frame :: "nat \<Rightarrow> session \<Rightarrow> string result" where
  "read_frame max_payload s = read_frame_loop max_payload 0 OPEN [] s (input s)"

text \<open>
  A robot that answers \<open>n\<close> commands in a row with the confirmation \<open>OK -2 2\<close>, at once.
\<close>

definition confirmations :: "nat \<Rightarrow> (nat \<times> char) list" where
  "confirmations n = concat (replicate n (frame ''OK -2 2''))"

section \<open>Properties of the hash\<close>

lemma fold_schar_sum:
  "fold (\<lambda>it result. result + word_of_int (schar it)) u (a :: 16 word)
     = a + word_of_int (sum_of_schars u)"
  by (induction u arbitrary: a) (simp_all add: sum_of_schars_def algebra_simps)

lemma computeHash_word:
  "computeHash key u = word_of_int (sum_of_schars u * 1000 + uint key)"
  by (simp add: computeHash_def fold_schar_sum)

lemma uint_computeHash:
  "uint (computeHash key u) = (sum_of_schars u * 1000 + uint key) mod 65536"
  unfolding computeHash_word by (simp only: uint_word_of_int) simp

lemma sum_of_schars_ascii:
  "\<forall>c \<in> set u. (of_char c :: nat) < 128 \<Longrightarrow> sum_of_schars u = int (sum_of_bytes u)"
  by (induction u) (simp_all add: sum_of_schars_def sum_of_bytes_def schar_def)

section \<open>What a read leaves behind\<close>

lemmas codec_defs = readFromSocketWithWait_def readFromSocket_def switchBuffer_def
  delivered_def sendResponse_def frame_def ClientController_def
  TERMINATING_FIRST_CHAR_def TERMINATING_SECOND_CHAR_def TERMINATING_SEQUENCE_LENGTH_def
  TIMEOUT_def TIMEOUT_RECHARGING_def CLIENT_RECHARGING_def CLIENT_FULL_POWER_def
  CLIENT_FULL_POWER_LENGTH_def CLIENT_USERNAME_LENGTH_def CLIENT_CONFIRMATION_LENGTH_def
  CLIENT_OK_LENGTH_def CLIENT_MESSAGE_LENGTH_def SERVER_SYNTAX_ERROR_def SERVER_LOGIC_ERROR_def

lemma readLoop_Inl:
  "readLoop maxMsgSize msgLength state message s evs = Inl (e, s')
     \<Longrightarrow> (e = RuntimeError ''Timeout fired'' \<and> sent s' = sent s)
       \<or> (e = RuntimeError ''Message size out of bounds''
            \<and> sent s' = sent (sendResponse SERVER_SYNTAX_ERROR s))"
proof (induction evs arbitrary: msgLength state message)
  case Nil
  then show ?case by (auto simp: sendResponse_def split: if_splits)
next
  case (Cons ev evs)
  obtain d buffer where ev: "ev = (d, buffer)" by (cases ev)
  obtain st' msg' dn where sw: "switchBuffer buffer state message = (st', msg', dn)"
    by (cases "switchBuffer buffer state message")
  show ?case
  proof (cases "readLoop maxMsgSize msgLength state message s (ev # evs)
                  = readLoop maxMsgSize (msgLength + 1) st' msg' s evs")
    case True
    with Cons.prems Cons.IH show ?thesis by simp
  next
    case False
    with Cons.prems ev sw show ?thesis
      by (auto simp: sendResponse_def split: if_splits)
  qed
qed

lemma readFromSocketWithWait_Inr:
  "readFromSocketWithWait maxMsgSize timeout s = Inr (m, s')
     \<Longrightarrow> sent s' = sent s \<and> rcvtimeo s' = timeout
         \<and> position s' = position s \<and> direction s' = direction s"
  unfolding readFromSocketWithWait_def readFromSocket_def
  by (auto dest!: readLoop_consumes)

lemma readFromSocketWithWait_Inl:
  "readFromSocketWithWait maxMsgSize timeout s = Inl (e, s')
     \<Longrightarrow> prefix (sent s) (sent s')"
  unfolding readFromSocketWithWait_def readFromSocket_def
  by (auto dest!: readLoop_Inl simp: sendResponse_def)

lemma readMsg_Inr:
  "readMsg maxMsgSize s = Inr (m, s')
     \<Longrightarrow> sent s' = sent s \<and> rcvtimeo s' = TIMEOUT
         \<and> position s' = position s \<and> direction s' = direction s"
proof (induction maxMsgSize s rule: readMsg.induct)
  case (1 maxMsgSize s)
  from "1.prems" obtain message s1
    where r1: "readFromSocketWithWait maxMsgSize TIMEOUT s = Inr (message, s1)"
    by (subst (asm) readMsg.simps) (auto split: sum.splits)
  note k1 = readFromSocketWithWait_Inr [OF r1]
  show ?case
  proof (cases "message = CLIENT_RECHARGING")
    case False
    with "1.prems" r1 have "s' = s1"
      by (subst (asm) readMsg.simps) simp
    with k1 show ?thesis by simp
  next
    case True
    with "1.prems" r1 obtain message2 s2
      where r2: "readFromSocketWithWait CLIENT_FULL_POWER_LENGTH TIMEOUT_RECHARGING s1
                   = Inr (message2, s2)"
        and fp: "message2 = CLIENT_FULL_POWER"
        and rec: "readMsg maxMsgSize s2 = Inr (m, s')"
      by (subst (asm) readMsg.simps) (auto split: sum.splits if_splits)
    note k2 = readFromSocketWithWait_Inr [OF r2]
    from "1.IH" [OF r1 _ True r2 _ _ rec] fp k1 k2 show ?thesis by simp
  qed
qed

lemma readMsg_Inl:
  "readMsg maxMsgSize s = Inl (e, s') \<Longrightarrow> prefix (sent s) (sent s')"
proof (induction maxMsgSize s rule: readMsg.induct)
  case (1 maxMsgSize s)
  show ?case
  proof (cases "readFromSocketWithWait maxMsgSize TIMEOUT s")
    case (Inl a)
    with "1.prems" have "readFromSocketWithWait maxMsgSize TIMEOUT s = Inl (e, s')"
      by (subst (asm) readMsg.simps) simp
    then show ?thesis by (rule readFromSocketWithWait_Inl)
  next
    case (Inr b)
    obtain message s1 where b: "b = (message, s1)" by (cases b)
    note r1 = Inr [unfolded b]
    note k1 = readFromSocketWithWait_Inr [OF r1]
    show ?thesis
    proof (cases "message = CLIENT_RECHARGING")
      case False
      with "1.prems" r1 show ?thesis by (subst (asm) readMsg.simps) simp
    next
      case True
      show ?thesis
      proof (cases "readFromSocketWithWait CLIENT_FULL_POWER_LENGTH TIMEOUT_RECHARGING s1")
        case (Inl a2)
        with "1.prems" r1 True
        have "readFromSocketWithWait CLIENT_FULL_POWER_LENGTH TIMEOUT_RECHARGING s1
                = Inl (e, s')"
          by (subst (asm) readMsg.simps) simp
        from readFromSocketWithWait_Inl [OF this] k1 show ?thesis by simp
      next
        case (Inr b2)
        obtain message2 s2 where b2: "b2 = (message2, s2)" by (cases b2)
        note r2 = Inr [unfolded b2]
        note k2 = readFromSocketWithWait_Inr [OF r2]
        show ?thesis
        proof (cases "message2 = CLIENT_FULL_POWER")
          case False
          with "1.prems" r1 True r2 have "s' = sendResponse SERVER_LOGIC_ERROR s2"
            by (subst (asm) readMsg.simps) simp
          with k1 k2 show ?thesis by (simp add: sendResponse_def)
        next
          case fp: True
          with "1.prems" r1 True r2 have rec: "readMsg maxMsgSize s2 = Inl (e, s')"
            by (subst (asm) readMsg.simps) simp
          from "1.IH" [OF r1 _ True r2 _ _ rec] fp k1 k2 show ?thesis by simp
        qed
      qed
    qed
  qed
qed

lemma prefix_sendResponse: "prefix xs (sent s) \<Longrightarrow> prefix xs (sent (sendResponse msg s))"
  by (simp add: sendResponse_def prefix_def) auto

lemma authenticate_sends_hash:
  assumes r: "readMsg CLIENT_USERNAME_LENGTH s = Inr (userName, s1)"
  shows "prefix (sent s @ [to_string (unat (computeHash SERVER_KEY userName))
                            @ [TERMINATING_FIRST_CHAR, TERMINATING_SECOND_CHAR]])
                (sent (outcome (authenticate s)))"
proof -
  define h where "h = to_string (unat (computeHash SERVER_KEY userName))"
  define s2 where "s2 = sendResponse h s1"
  have s2: "sent s2 = sent s @ [h @ [TERMINATING_FIRST_CHAR, TERMINATING_SECOND_CHAR]]"
    using readMsg_Inr [OF r] by (simp add: s2_def sendResponse_def)
  have "prefix (sent s2) (sent (outcome (authenticate s)))"
  proof (cases "readMsg CLIENT_CONFIRMATION_LENGTH s2")
    case (Inl a)
    obtain e s' where a: "a = (e, s')" by (cases a)
    from readMsg_Inl [OF Inl [unfolded a]] r Inl a show ?thesis
      by (simp add: authenticate_def outcome_def h_def s2_def)
  next
    case (Inr b)
    obtain clientHash s3 where b: "b = (clientHash, s3)" by (cases b)
    from readMsg_Inr [OF Inr [unfolded b]] have "prefix (sent s2) (sent s3)" by simp
    then have "\<And>msg. prefix (sent s2) (sent (sendResponse msg s3))"
      by (rule prefix_sendResponse)
    with \<open>prefix (sent s2) (sent s3)\<close> r Inr b show ?thesis
      by (simp add: authenticate_def outcome_def h_def s2_def Let_def split: sum.splits)
  qed
  with s2 show ?thesis by (simp add: h_def)
qed

section \<open>The server hash (claim C2)\<close>

text \<open>
  Claim C2, as amended. For every username the first read of the handshake returns, the
  next frame the server sends is the decimal string of
  \<open>(sum_of_schars username * 1000 + 54621) mod 65536\<close>, where \<open>sum_of_schars\<close> adds the
  bytes as signed \<^verbatim>\<open>char\<close> values: a byte \<open>b\<close> from \<open>0x80\<close> on counts as \<open>b - 256\<close>.
  The frame is sent whatever the rest of the handshake does.
\<close>

theorem server_hash_sent:
  "readMsg CLIENT_USERNAME_LENGTH s = Inr (userName, s1) \<Longrightarrow>
     prefix (sent s @ [to_string (nat ((sum_of_schars userName * 1000 + 54621) mod 65536))
                        @ [TERMINATING_FIRST_CHAR, TERMINATING_SECOND_CHAR]])
            (sent (outcome (authenticate s)))"
proof -
  assume r: "readMsg CLIENT_USERNAME_LENGTH s = Inr (userName, s1)"
  have "unat (computeHash SERVER_KEY userName)
          = nat ((sum_of_schars userName * 1000 + 54621) mod 65536)"
    using uint_computeHash [of SERVER_KEY userName]
    by (simp add: SERVER_KEY_def unat_eq_nat_uint)
  with authenticate_sends_hash [OF r] show ?thesis by simp
qed

theorem server_hash_sent_witness:
  "readMsg CLIENT_USERNAME_LENGTH (ClientController (frame ''Ab''))
     = Inr (''Ab'', (ClientController [])\<lparr>rcvtimeo := 1\<rparr>)
   \<and> prefix [''21013'' @ [TERMINATING_FIRST_CHAR, TERMINATING_SECOND_CHAR]]
        (sent (outcome (authenticate (ClientController (frame ''Ab'')))))"
proof -
  have r: "readMsg CLIENT_USERNAME_LENGTH (ClientController (frame ''Ab''))
     = Inr (''Ab'', (ClientController [])\<lparr>rcvtimeo := 1\<rparr>)"
    by (simp add: readMsg.simps codec_defs)
  have "to_string (nat ((sum_of_schars ''Ab'' * 1000 + 54621) mod 65536)) = ''21013''"
    by (simp add: sum_of_schars_def schar_def to_string.simps digit_char_def)
  with server_hash_sent [OF r] r show ?thesis
    by (simp add: ClientController_def)
qed

text \<open>
  Claim C2 as stated, with the bytes read as unsigned values, fails for the one-byte
  username \<open>0x80\<close>: the server sends \<open>57693\<close>, the unsigned sum gives \<open>51549\<close>.
\<close>

theorem unsigned_hash_counterexample:
  "sent (outcome (authenticate (ClientController (frame [CHR 0x80]))))
     = [''57693'' @ [TERMINATING_FIRST_CHAR, TERMINATING_SECOND_CHAR]]
   \<and> to_string ((sum_of_bytes [CHR 0x80] * 1000 + 54621) mod 65536) = ''51549''"
  by (simp add: authenticate_def outcome_def readMsg.simps codec_defs computeHash_def
      schar_def SERVER_KEY_def sum_of_bytes_def to_string.simps digit_char_def)

section \<open>The frame codec: round trip (claim C7)\<close>

lemma has_terminator_append_pair:
  "has_terminator (xs @ TERMINATING_FIRST_CHAR # TERMINATING_SECOND_CHAR # ys)"
  by (induction xs rule: has_terminator.induct) auto

lemma has_terminator_appendI: "has_terminator xs \<Longrightarrow> has_terminator (xs @ ys)"
  by (induction xs rule: has_terminator.induct) auto

lemma no_first_char_no_terminator:
  "TERMINATING_FIRST_CHAR \<notin> set p \<Longrightarrow> \<not> has_terminator p"
  by (induction p rule: has_terminator.induct) auto

lemma switchBuffer_recognizer: "switchBuffer c st m = recognizer st c m"
  by (cases st) (simp_all add: switchBuffer_def TERMINATING_FIRST_CHAR_def TERMINATING_SECOND_CHAR_def)

lemma switchBuffer_done:
  "switchBuffer c st m = (st', m', True)
     \<Longrightarrow> st = CLOSE \<and> c = TERMINATING_SECOND_CHAR \<and> m' = m \<and> st' = CLOSE"
  by (cases st) (auto simp: switchBuffer_recognizer split: if_splits)

lemma switchBuffer_pend:
  "switchBuffer c st m = (st', m', False) \<Longrightarrow> pend st' m' = pend st m @ [c]"
  by (cases st) (auto simp: switchBuffer_recognizer pend_def split: if_splits)

lemma uint_succ_le: "uint ((w :: 16 word) + 1) \<le> uint w + 1"
  by (simp add: uint_word_ariths) (smt (verit) zmod_le_nonneg_dividend uint_ge_0)

lemma uint_of_nat_le: "uint (of_nat k :: 16 word) \<le> int k"
  by (simp add: uint_word_of_int unsigned_of_nat take_bit_eq_mod zmod_le_nonneg_dividend)

lemma readLoop_payload:
  assumes "map snd evs = p" and "\<forall>e \<in> set evs. delivered s (fst e)"
    and "\<not> has_terminator (pend state message @ p)"
    and "uint msgLength + int (length p) \<le> maxMsgSize"
  shows "\<exists>state' message'. pend state' message' = pend state message @ p
           \<and> readLoop maxMsgSize msgLength state message s (evs @ rest)
               = readLoop maxMsgSize (msgLength + of_nat (length p)) state' message' s rest"
  using assms
proof (induction evs arbitrary: p msgLength state message)
  case Nil
  then show ?case by auto
next
  case (Cons ev evs)
  obtain d c where ev: "ev = (d, c)" by (cases ev)
  from Cons.prems(1) ev obtain p' where p: "p = c # p'" and p': "map snd evs = p'" by auto
  obtain st' msg' dn where sw: "switchBuffer c state message = (st', msg', dn)"
    by (cases "switchBuffer c state message")
  have nd: "\<not> dn"
  proof
    assume dn
    with sw have "state = CLOSE" "c = TERMINATING_SECOND_CHAR"
      by (auto dest: switchBuffer_done)
    then have "has_terminator (pend state message @ p)"
      using has_terminator_append_pair [of message p'] by (simp add: pend_def p)
    with Cons.prems(3) show False by simp
  qed
  with sw have pd: "pend st' msg' = pend state message @ [c]"
    by (auto dest: switchBuffer_pend)
  have le: "uint (msgLength + 1) \<le> maxMsgSize"
    using uint_succ_le [of msgLength] Cons.prems(4) p by simp
  have step: "readLoop maxMsgSize msgLength state message s ((ev # evs) @ rest)
                = readLoop maxMsgSize (msgLength + 1) st' msg' s (evs @ rest)"
    using Cons.prems(2) ev sw nd le by (simp add: TERMINATING_SEQUENCE_LENGTH_def)
  have "\<exists>state'' message''. pend state'' message'' = pend st' msg' @ p'
           \<and> readLoop maxMsgSize (msgLength + 1) st' msg' s (evs @ rest)
               = readLoop maxMsgSize (msgLength + 1 + of_nat (length p')) state'' message'' s rest"
  proof (rule Cons.IH [OF p'])
    show "\<forall>e \<in> set evs. delivered s (fst e)" using Cons.prems(2) by simp
    show "\<not> has_terminator (pend st' msg' @ p')" using Cons.prems(3) pd p by simp
    show "uint (msgLength + 1) + int (length p') \<le> maxMsgSize"
      using uint_succ_le [of msgLength] Cons.prems(4) p by simp
  qed
  moreover have "msgLength + 1 + of_nat (length p') = msgLength + of_nat (length p)"
    by (simp add: p)
  ultimately show ?case using step pd p by auto
qed

lemma readFromSocket_frame:
  assumes "\<not> has_terminator p" and "int (length p) \<le> maxMsgSize"
    and "map snd evs = p @ [TERMINATING_FIRST_CHAR, TERMINATING_SECOND_CHAR]"
    and "\<forall>e \<in> set evs. delivered s (fst e)"
  shows "readFromSocket maxMsgSize (s\<lparr>input := evs @ rest\<rparr>) = Inr (p, s\<lparr>input := rest\<rparr>)"
proof -
  from assms(3) obtain evp d1 d2 where evs: "evs = evp @ [(d1, TERMINATING_FIRST_CHAR), (d2, TERMINATING_SECOND_CHAR)]"
    and evp: "map snd evp = p"
    by (auto simp: map_eq_append_conv)
  let ?s = "s\<lparr>input := evs @ rest\<rparr>"
  let ?n = "of_nat (length p) :: 16 word"
  have dl: "\<forall>e \<in> set evp. delivered ?s (fst e)" "delivered ?s d1" "delivered ?s d2"
    using assms(4) evs by (auto simp: delivered_def)
  from readLoop_payload [of evp p ?s OPEN "[]" 0 maxMsgSize
      "[(d1, TERMINATING_FIRST_CHAR), (d2, TERMINATING_SECOND_CHAR)] @ rest"]
    evp dl(1) assms(1,2)
  obtain st' msg' where pd: "pend st' msg' = p"
    and run: "readLoop maxMsgSize 0 OPEN [] ?s
                (evp @ [(d1, TERMINATING_FIRST_CHAR), (d2, TERMINATING_SECOND_CHAR)] @ rest)
              = readLoop maxMsgSize ?n st' msg' ?s
                ([(d1, TERMINATING_FIRST_CHAR), (d2, TERMINATING_SECOND_CHAR)] @ rest)"
    by (auto simp: pend_def)
  have n1: "uint (?n + 1) \<le> maxMsgSize + 1"
    using uint_succ_le [of ?n] uint_of_nat_le [of "length p"] assms(2) by simp
  have n2: "uint (?n + 1 + 1) \<le> maxMsgSize + 2"
    using uint_succ_le [of "?n + 1"] n1 by simp
  have sw1: "switchBuffer TERMINATING_FIRST_CHAR st' msg' = (CLOSE, p, False)"
    using pd by (cases st') (auto simp: switchBuffer_recognizer pend_def
        TERMINATING_FIRST_CHAR_def TERMINATING_SECOND_CHAR_def)
  have sw2: "switchBuffer TERMINATING_SECOND_CHAR CLOSE p = (CLOSE, p, True)"
    by (simp add: switchBuffer_recognizer)
  have "readLoop maxMsgSize ?n st' msg' ?s
          ((d1, TERMINATING_FIRST_CHAR) # (d2, TERMINATING_SECOND_CHAR) # rest)
        = readLoop maxMsgSize (?n + 1) CLOSE p ?s ((d2, TERMINATING_SECOND_CHAR) # rest)"
    using dl(2) n1 sw1 by (simp add: TERMINATING_SEQUENCE_LENGTH_def)
  also have "\<dots> = Inr (p, ?s\<lparr>input := rest\<rparr>)"
    using dl(3) n2 sw2 by (simp add: TERMINATING_SEQUENCE_LENGTH_def)
  finally show ?thesis
    using run evs by (simp add: readFromSocket_def)
qed

text \<open>
  Claim C7. Let \<open>p\<close> be a payload without the pair \<open>0x07 0x08\<close> (single terminator bytes may
  stand anywhere, also at the end), and let the socket deliver, each byte within the receive
  timeout, the bytes \<open>sendResponse p\<close> writes: \<open>p\<close> followed by \<open>0x07 0x08\<close>. Then
  \<open>readFromSocket\<close> with any \<open>maxMsgSize\<close> of at least the length of \<open>p\<close> returns
  exactly \<open>p\<close>, and leaves the bytes after the frame in the socket.
\<close>

theorem codec_round_trip:
  assumes "\<not> has_terminator p" and "int (length p) \<le> maxMsgSize"
    and "map snd evs = last (sent (sendResponse p s0))"
    and "\<forall>e \<in> set evs. delivered s (fst e)"
  shows "readFromSocket maxMsgSize (s\<lparr>input := evs @ rest\<rparr>) = Inr (p, s\<lparr>input := rest\<rparr>)"
proof -
  from assms(3) have "map snd evs = p @ [TERMINATING_FIRST_CHAR, TERMINATING_SECOND_CHAR]"
    by (simp add: sendResponse_def)
  with assms(1,2) show ?thesis using assms(4) by (rule readFromSocket_frame)
qed

theorem codec_round_trip_witness:
  "\<not> has_terminator [CHR ''a'', TERMINATING_FIRST_CHAR, CHR ''b'', TERMINATING_SECOND_CHAR,
                       TERMINATING_FIRST_CHAR]
   \<and> map snd (frame [CHR ''a'', TERMINATING_FIRST_CHAR, CHR ''b'', TERMINATING_SECOND_CHAR,
                       TERMINATING_FIRST_CHAR])
       = last (sent (sendResponse [CHR ''a'', TERMINATING_FIRST_CHAR, CHR ''b'',
                                   TERMINATING_SECOND_CHAR, TERMINATING_FIRST_CHAR]
                       (ClientController [])))
   \<and> readFromSocket 5
        (ClientController (frame [CHR ''a'', TERMINATING_FIRST_CHAR, CHR ''b'',
                                  TERMINATING_SECOND_CHAR, TERMINATING_FIRST_CHAR] @ frame ''x''))
       = Inr ([CHR ''a'', TERMINATING_FIRST_CHAR, CHR ''b'', TERMINATING_SECOND_CHAR,
               TERMINATING_FIRST_CHAR], ClientController (frame ''x''))"
  using codec_round_trip [of "[CHR ''a'', TERMINATING_FIRST_CHAR, CHR ''b'',
        TERMINATING_SECOND_CHAR, TERMINATING_FIRST_CHAR]" 5
      "frame [CHR ''a'', TERMINATING_FIRST_CHAR, CHR ''b'', TERMINATING_SECOND_CHAR,
              TERMINATING_FIRST_CHAR]"
      "ClientController []" "ClientController []" "frame ''x''"]
  by (simp add: frame_def sendResponse_def ClientController_def delivered_def
      TERMINATING_FIRST_CHAR_def TERMINATING_SECOND_CHAR_def)

section \<open>The frame codec: size policy (claim C8)\<close>

lemma uint_of_nat_small: "k \<le> 65535 \<Longrightarrow> uint (of_nat k :: 16 word) = int k"
  by (simp add: uint_word_of_int unsigned_of_nat take_bit_eq_mod)

lemma readLoop_refines:
  assumes "0 \<le> maxMsgSize" "maxMsgSize \<le> 65533" "int n \<le> maxMsgSize + 1"
  shows "readLoop maxMsgSize (of_nat n) st msg s evs
           = read_frame_loop (nat maxMsgSize) n st msg s evs"
  using assms(3)
proof (induction evs arbitrary: n st msg)
  case Nil
  have "(of_nat n + 1 :: 16 word) = of_nat (Suc n)" by simp
  then have "uint (of_nat n + 1 :: 16 word) = int (Suc n)"
    using uint_of_nat_small [of "Suc n"] Nil assms by (simp del: of_nat_Suc)
  with Nil show ?case by (simp add: TERMINATING_SEQUENCE_LENGTH_def)
next
  case (Cons ev evs)
  obtain d c where ev: "ev = (d, c)" by (cases ev)
  have "(of_nat n + 1 :: 16 word) = of_nat (Suc n)" by simp
  then have u: "uint (of_nat n + 1 :: 16 word) = int (Suc n)"
    using uint_of_nat_small [of "Suc n"] Cons.prems assms by (simp del: of_nat_Suc)
  obtain st' msg' dn where sw: "recognizer st c msg = (st', msg', dn)"
    by (cases "recognizer st c msg")
  show ?case
  proof (cases "int (Suc n) = maxMsgSize + 2")
    case True
    with u ev sw Cons.prems assms show ?thesis
      by (auto simp: TERMINATING_SEQUENCE_LENGTH_def switchBuffer_recognizer)
  next
    case False
    with Cons.prems have "int (Suc n) \<le> maxMsgSize + 1" by simp
    from Cons.IH [OF this] have
      "readLoop maxMsgSize (of_nat n + 1) st' msg' s evs
         = read_frame_loop (nat maxMsgSize) (Suc n) st' msg' s evs"
      by (simp add: add.commute)
    with u ev sw Cons.prems assms False show ?thesis
      by (auto simp: TERMINATING_SEQUENCE_LENGTH_def switchBuffer_recognizer)
  qed
qed

lemma read_frame_loop_bound:
  assumes "read_frame_loop max_payload n st msg s evs = Inr (p, s')"
    and "length (pend st msg) = n" and "n \<le> max_payload + 1"
  shows "length p \<le> max_payload"
  using assms
proof (induction evs arbitrary: n st msg)
  case Nil
  then show ?case by simp
next
  case (Cons ev evs)
  obtain d c where ev: "ev = (d, c)" by (cases ev)
  obtain st' msg' dn where sw: "recognizer st c msg = (st', msg', dn)"
    by (cases "recognizer st c msg")
  show ?case
  proof (cases dn)
    case True
    with sw have "st = CLOSE" "msg' = msg"
      by (cases st; auto split: if_splits)+
    with Cons.prems ev sw True show ?thesis
      by (auto simp: pend_def split: if_splits)
  next
    case False
    with sw have "pend st' msg' = pend st msg @ [c]"
      by (auto simp: switchBuffer_recognizer [symmetric] dest: switchBuffer_pend)
    with Cons.prems(2) have "length (pend st' msg') = Suc n" by simp
    moreover from Cons.prems(1) ev sw False
    have "read_frame_loop max_payload (Suc n) st' msg' s evs = Inr (p, s')"
      and "Suc n \<noteq> max_payload + 2"
      by (auto split: if_splits)
    moreover from this(2) Cons.prems(3) have "Suc n \<le> max_payload + 1" by simp
    ultimately show ?thesis using Cons.IH by blast
  qed
qed

text \<open>
  Claim C8, as amended. For every input and every \<open>maxMsgSize\<close> from \<open>0\<close> to \<open>65533\<close>
  (the caps for which the 16-bit counter \<open>msgLength\<close> reaches \<open>maxMsgSize + 2\<close>),
  \<open>readFromSocket\<close> is the reader of the specification: it aborts, sending
  \<open>301 SYNTAX ERROR\<close> first, exactly when \<open>maxMsgSize + 1\<close> bytes are consumed with the
  recognizer in state open, or \<open>maxMsgSize + 2\<close> bytes are consumed and the frame is not
  complete; and a payload it returns is at most \<open>maxMsgSize\<close> bytes long.
\<close>

theorem readFromSocket_size_policy:
  assumes "0 \<le> maxMsgSize" and "maxMsgSize \<le> 65533"
  shows "readFromSocket maxMsgSize s = read_frame (nat maxMsgSize) s
         \<and> (\<forall>p s'. readFromSocket maxMsgSize s = Inr (p, s') \<longrightarrow> int (length p) \<le> maxMsgSize)"
proof -
  have eq: "readFromSocket maxMsgSize s = read_frame (nat maxMsgSize) s"
    using readLoop_refines [OF assms, of 0 OPEN "[]" s "input s"] assms(1)
    by (simp add: readFromSocket_def read_frame_def)
  moreover have "int (length p) \<le> maxMsgSize" if "readFromSocket maxMsgSize s = Inr (p, s')" for p s'
  proof -
    from that eq have "read_frame_loop (nat maxMsgSize) 0 OPEN [] s (input s) = Inr (p, s')"
      by (simp add: read_frame_def)
    then have "length p \<le> nat maxMsgSize"
      by (rule read_frame_loop_bound) (simp_all add: pend_def)
    with assms(1) show ?thesis by simp
  qed
  ultimately show ?thesis by blast
qed

theorem readFromSocket_size_policy_witness:
  "(0::int) \<le> 2 \<and> (2::int) \<le> 65533
   \<and> readFromSocket 2 (ClientController (frame ''Ab'')) = Inr (''Ab'', ClientController [])
   \<and> int (length ''Ab'') \<le> 2
   \<and> readFromSocket 2 (ClientController (frame ''Abc''))
       = read_frame 2 (ClientController (frame ''Abc''))
   \<and> read_frame 2 (ClientController (frame ''Abc''))
       = Inl (RuntimeError ''Message size out of bounds'',
              sendResponse SERVER_SYNTAX_ERROR (ClientController (drop 3 (frame ''Abc''))))"
proof -
  have r: "readFromSocket 2 (ClientController (frame ''Ab'')) = Inr (''Ab'', ClientController [])"
    by (simp add: codec_defs)
  have "read_frame 2 (ClientController (frame ''Abc''))
       = Inl (RuntimeError ''Message size out of bounds'',
              sendResponse SERVER_SYNTAX_ERROR (ClientController (drop 3 (frame ''Abc''))))"
    by (simp add: read_frame_def codec_defs)
  with r readFromSocket_size_policy [of 2 "ClientController (frame ''Ab'')"]
    readFromSocket_size_policy [of 2 "ClientController (frame ''Abc'')"]
  show ?thesis by simp
qed

text \<open>
  Claim C8 as stated, for every cap, fails at \<open>maxMsgSize = 65534\<close>: byte \<open>65535\<close> is a
  first terminator byte, so the recognizer is in state close; at byte \<open>65536\<close> the counter
  wraps to \<open>0\<close> and never equals \<open>maxMsgSize + 2\<close>. The payload returned is \<open>65536\<close>
  bytes long.
\<close>

theorem counter_wraps_counterexample:
  "readFromSocket 65534 (ClientController (map (Pair 0)
       (replicate 65534 (CHR ''x'')
          @ [TERMINATING_FIRST_CHAR, CHR ''y'', TERMINATING_FIRST_CHAR, TERMINATING_SECOND_CHAR])))
     = Inr (replicate 65534 (CHR ''x'') @ [TERMINATING_FIRST_CHAR, CHR ''y''], ClientController [])
   \<and> length (replicate 65534 (CHR ''x'') @ [TERMINATING_FIRST_CHAR, CHR ''y'']) = 65536"
proof -
  let ?p = "replicate 65534 (CHR ''x'')"
  let ?tail = "[(0::nat, TERMINATING_FIRST_CHAR), (0, CHR ''y''),
                (0, TERMINATING_FIRST_CHAR), (0, TERMINATING_SECOND_CHAR)]"
  let ?s = "ClientController (map (Pair 0) ?p @ ?tail)"
  have nt: "\<not> has_terminator (pend OPEN [] @ ?p)"
    by (rule no_first_char_no_terminator) (simp add: pend_def TERMINATING_FIRST_CHAR_def)
  from readLoop_payload [of "map (Pair 0) ?p" ?p ?s OPEN "[]" 0 65534 ?tail, OF _ _ nt]
  obtain st' msg' where pd: "pend st' msg' = ?p"
    and run: "readLoop 65534 0 OPEN [] ?s (map (Pair 0) ?p @ ?tail)
                = readLoop 65534 (of_nat (length ?p)) st' msg' ?s ?tail"
    by (auto simp: pend_def delivered_def ClientController_def comp_def)
  have st': "st' = OPEN"
  proof (rule ccontr)
    assume "st' \<noteq> OPEN"
    then have "st' = CLOSE" by (cases st') auto
    with pd have "last ?p = TERMINATING_FIRST_CHAR"
      by (metis pend_def last_snoc)
    then show False by (simp add: TERMINATING_FIRST_CHAR_def)
  qed
  with pd have msg': "msg' = ?p" by (simp add: pend_def)
  have "readLoop 65534 65534 OPEN ?p ?s ?tail
          = Inr (?p @ [TERMINATING_FIRST_CHAR, CHR ''y''], ClientController [])"
    by (simp add: codec_defs)
  with run st' msg' show ?thesis
    by (simp add: readFromSocket_def ClientController_def)
qed

section \<open>The recharging sub-protocol (claim C9)\<close>


lemma readFromSocketWithWait_frame:
  assumes "\<not> has_terminator p" and "int (length p) \<le> maxMsgSize"
    and "map snd evs = p @ [TERMINATING_FIRST_CHAR, TERMINATING_SECOND_CHAR]"
    and "\<forall>e \<in> set evs. fst e < timeout"
    and "input s = evs @ rest"
  shows "readFromSocketWithWait maxMsgSize timeout s
           = Inr (p, s\<lparr>rcvtimeo := timeout, input := rest\<rparr>)"
proof -
  have "\<forall>e \<in> set evs. delivered (s\<lparr>rcvtimeo := timeout\<rparr>) (fst e)"
    using assms(4) by (simp add: delivered_def)
  from readFromSocket_frame [OF assms(1,2,3) this, of rest] assms(5)
  have "readFromSocket maxMsgSize (s\<lparr>rcvtimeo := timeout\<rparr>)
          = Inr (p, s\<lparr>rcvtimeo := timeout, input := rest\<rparr>)"
    by (metis (no_types) session.surjective session.update_convs(1) session.update_convs(3))
  then show ?thesis by (simp add: readFromSocketWithWait_def)
qed




section \<open>The username frame (claim C1)\<close>

lemma has_terminator_snoc_first:
  "has_terminator (p @ [TERMINATING_FIRST_CHAR]) = has_terminator p"
  by (induction p rule: has_terminator.induct)
     (auto simp: TERMINATING_FIRST_CHAR_def TERMINATING_SECOND_CHAR_def)

lemma read_frame_loop_oversize:
  assumes "map snd evs = w" and "\<forall>e \<in> set evs. delivered s (fst e)"
    and "\<not> has_terminator (pend st msg @ w)"
    and "max_payload + 2 \<le> n + length w" and "n \<le> max_payload + 1"
  shows "\<exists>r. read_frame_loop max_payload n st msg s (evs @ rest)
           = Inl (RuntimeError ''Message size out of bounds'',
                  sendResponse SERVER_SYNTAX_ERROR (s\<lparr>input := r\<rparr>))"
  using assms
proof (induction evs arbitrary: w n st msg)
  case Nil
  then show ?case by simp
next
  case (Cons ev evs)
  obtain d c where ev: "ev = (d, c)" by (cases ev)
  from Cons.prems(1) ev obtain w' where w: "w = c # w'" and w': "map snd evs = w'" by auto
  obtain st' msg' dn where sw: "recognizer st c msg = (st', msg', dn)"
    by (cases "recognizer st c msg")
  have nd: "\<not> dn"
  proof
    assume dn
    with sw have "st = CLOSE" "c = TERMINATING_SECOND_CHAR"
      by (auto simp: switchBuffer_recognizer [symmetric] dest: switchBuffer_done)
    then have "has_terminator (pend st msg @ w)"
      using has_terminator_append_pair [of msg w'] by (simp add: pend_def w)
    with Cons.prems(3) show False by simp
  qed
  with sw have pd: "pend st' msg' = pend st msg @ [c]"
    by (auto simp: switchBuffer_recognizer [symmetric] dest: switchBuffer_pend)
  show ?case
  proof (cases "(Suc n = max_payload + 1 \<and> st' = OPEN) \<or> Suc n = max_payload + 2")
    case True
    with Cons.prems(2) ev sw nd show ?thesis by auto
  next
    case False
    have "\<exists>r. read_frame_loop max_payload (Suc n) st' msg' s (evs @ rest)
           = Inl (RuntimeError ''Message size out of bounds'',
                  sendResponse SERVER_SYNTAX_ERROR (s\<lparr>input := r\<rparr>))"
    proof (rule Cons.IH [OF w'])
      show "\<forall>e \<in> set evs. delivered s (fst e)" using Cons.prems(2) by simp
      show "\<not> has_terminator (pend st' msg' @ w')" using Cons.prems(3) pd w by simp
      show "max_payload + 2 \<le> Suc n + length w'" using Cons.prems(4) w by simp
      show "Suc n \<le> max_payload + 1" using False Cons.prems(5) by auto
    qed
    with Cons.prems(2) ev sw nd False show ?thesis by auto
  qed
qed

lemma readFromSocketWithWait_oversize:
  assumes "\<not> has_terminator p"
    and "map snd evs = p @ [TERMINATING_FIRST_CHAR, TERMINATING_SECOND_CHAR]"
    and "\<forall>e \<in> set evs. fst e < timeout"
    and "input s = evs @ rest"
    and "0 \<le> maxMsgSize" and "maxMsgSize \<le> 65533" and "maxMsgSize < int (length p)"
  shows "\<exists>r. readFromSocketWithWait maxMsgSize timeout s
           = Inl (RuntimeError ''Message size out of bounds'',
                  sendResponse SERVER_SYNTAX_ERROR (s\<lparr>rcvtimeo := timeout, input := r\<rparr>))"
proof -
  let ?s = "s\<lparr>rcvtimeo := timeout\<rparr>"
  from assms(2) obtain evp d1 d2
    where "evs = evp @ [(d1, TERMINATING_FIRST_CHAR), (d2, TERMINATING_SECOND_CHAR)]"
      and "map snd evp = p"
    by (auto simp: map_eq_append_conv)
  then obtain evw where evs: "evs = evw @ [(d2, TERMINATING_SECOND_CHAR)]"
    and evw: "map snd evw = p @ [TERMINATING_FIRST_CHAR]"
    by (auto intro: that [of "evp @ [(d1, TERMINATING_FIRST_CHAR)]"])
  have "\<exists>r. read_frame_loop (nat maxMsgSize) 0 OPEN [] ?s
               (evw @ ((d2, TERMINATING_SECOND_CHAR) # rest))
           = Inl (RuntimeError ''Message size out of bounds'',
                  sendResponse SERVER_SYNTAX_ERROR (?s\<lparr>input := r\<rparr>))"
  proof (rule read_frame_loop_oversize [OF evw])
    show "\<forall>e \<in> set evw. delivered ?s (fst e)"
      using assms(3) evs by (simp add: delivered_def)
    show "\<not> has_terminator (pend OPEN [] @ p @ [TERMINATING_FIRST_CHAR])"
      using assms(1) by (simp add: pend_def has_terminator_snoc_first)
    show "nat maxMsgSize + 2 \<le> 0 + length (p @ [TERMINATING_FIRST_CHAR])"
      using assms(5,7) by simp
    show "0 \<le> nat maxMsgSize + 1" by simp
  qed
  moreover have "readLoop maxMsgSize 0 OPEN [] ?s (input ?s)
                   = read_frame_loop (nat maxMsgSize) 0 OPEN [] ?s (input ?s)"
    using readLoop_refines [OF assms(5,6), of 0 OPEN "[]" ?s "input ?s"] assms(5) by simp
  ultimately show ?thesis
    using assms(4) evs by (simp add: readFromSocketWithWait_def readFromSocket_def)
qed

lemma readMsg_frame:
  assumes "\<not> has_terminator p" and "int (length p) \<le> maxMsgSize"
    and "map snd evs = p @ [TERMINATING_FIRST_CHAR, TERMINATING_SECOND_CHAR]"
    and "\<forall>e \<in> set evs. fst e < TIMEOUT"
    and "input s = evs @ rest" and "p \<noteq> CLIENT_RECHARGING"
  shows "readMsg maxMsgSize s = Inr (p, s\<lparr>rcvtimeo := TIMEOUT, input := rest\<rparr>)"
  using readFromSocketWithWait_frame [OF assms(1-5)] assms(6)
  by (subst readMsg.simps) simp

lemma readMsg_oversize:
  assumes "\<not> has_terminator p"
    and "map snd evs = p @ [TERMINATING_FIRST_CHAR, TERMINATING_SECOND_CHAR]"
    and "\<forall>e \<in> set evs. fst e < TIMEOUT"
    and "input s = evs @ rest"
    and "0 \<le> maxMsgSize" and "maxMsgSize \<le> 65533" and "maxMsgSize < int (length p)"
  shows "\<exists>r. readMsg maxMsgSize s
           = Inl (RuntimeError ''Message size out of bounds'',
                  sendResponse SERVER_SYNTAX_ERROR (s\<lparr>rcvtimeo := TIMEOUT, input := r\<rparr>))"
proof -
  from readFromSocketWithWait_oversize [OF assms]
  obtain r where "readFromSocketWithWait maxMsgSize TIMEOUT s
           = Inl (RuntimeError ''Message size out of bounds'',
                  sendResponse SERVER_SYNTAX_ERROR (s\<lparr>rcvtimeo := TIMEOUT, input := r\<rparr>))"
    by blast
  then have "readMsg maxMsgSize s
           = Inl (RuntimeError ''Message size out of bounds'',
                  sendResponse SERVER_SYNTAX_ERROR (s\<lparr>rcvtimeo := TIMEOUT, input := r\<rparr>))"
    by (subst readMsg.simps) simp
  then show ?thesis by blast
qed

text \<open>
  Claim C1, as amended. The username frame is read with a cap of ten bytes
  (\<open>CLIENT_USERNAME_LENGTH\<close>). When the socket delivers in time a frame whose payload has
  exactly ten bytes and is not the literal \<open>RECHARGING\<close>, the payload is accepted as the
  username: the server answers with its hash. When the payload has eleven bytes, the server
  sends \<open>301 SYNTAX ERROR\<close> and nothing else, \<open>authenticate\<close> throws, and
  \<open>handleClientConnection\<close> returns: the session is over.
\<close>

theorem username_cap_ten:
  assumes "\<not> has_terminator p"
    and "map snd evs = p @ [TERMINATING_FIRST_CHAR, TERMINATING_SECOND_CHAR]"
    and "\<forall>e \<in> set evs. fst e < TIMEOUT"
    and "input s = evs @ rest"
  shows "(length p = 10 \<and> p \<noteq> CLIENT_RECHARGING \<longrightarrow>
            prefix (sent s @ [to_string (unat (computeHash SERVER_KEY p))
                               @ [TERMINATING_FIRST_CHAR, TERMINATING_SECOND_CHAR]])
                   (sent (outcome (authenticate s))))
       \<and> (length p = 11 \<longrightarrow>
            (\<exists>s'. authenticate s = Inl (RuntimeError ''Message size out of bounds'', s')
                 \<and> handleClientConnection s = Inr s'
                 \<and> sent s' = sent s @ [SERVER_SYNTAX_ERROR
                                         @ [TERMINATING_FIRST_CHAR, TERMINATING_SECOND_CHAR]]))"
proof (intro conjI impI)
  assume "length p = 10 \<and> p \<noteq> CLIENT_RECHARGING"
  then have "readMsg CLIENT_USERNAME_LENGTH s = Inr (p, s\<lparr>rcvtimeo := TIMEOUT, input := rest\<rparr>)"
    using assms by (intro readMsg_frame) (simp_all add: CLIENT_USERNAME_LENGTH_def)
  then show "prefix (sent s @ [to_string (unat (computeHash SERVER_KEY p))
                               @ [TERMINATING_FIRST_CHAR, TERMINATING_SECOND_CHAR]])
                   (sent (outcome (authenticate s)))"
    by (rule authenticate_sends_hash)
next
  assume "length p = 11"
  then obtain r where rd: "readMsg CLIENT_USERNAME_LENGTH s
           = Inl (RuntimeError ''Message size out of bounds'',
                  sendResponse SERVER_SYNTAX_ERROR (s\<lparr>rcvtimeo := TIMEOUT, input := r\<rparr>))"
    using readMsg_oversize [OF assms, of CLIENT_USERNAME_LENGTH]
    by (auto simp: CLIENT_USERNAME_LENGTH_def)
  let ?s' = "sendResponse SERVER_SYNTAX_ERROR (s\<lparr>rcvtimeo := TIMEOUT, input := r\<rparr>)"
  from rd have a: "authenticate s = Inl (RuntimeError ''Message size out of bounds'', ?s')"
    by (simp add: authenticate_def)
  then have "handleClientConnection s = Inr ?s'"
    by (simp add: handleClientConnection_def tryBlock_def)
  moreover have "sent ?s' = sent s @ [SERVER_SYNTAX_ERROR
                                         @ [TERMINATING_FIRST_CHAR, TERMINATING_SECOND_CHAR]]"
    by (simp add: sendResponse_def)
  ultimately show "\<exists>s'. authenticate s = Inl (RuntimeError ''Message size out of bounds'', s')
                 \<and> handleClientConnection s = Inr s'
                 \<and> sent s' = sent s @ [SERVER_SYNTAX_ERROR
                                         @ [TERMINATING_FIRST_CHAR, TERMINATING_SECOND_CHAR]]"
    using a by blast
qed

theorem username_cap_ten_witness:
  "prefix [to_string (unat (computeHash SERVER_KEY ''0123456789''))
             @ [TERMINATING_FIRST_CHAR, TERMINATING_SECOND_CHAR]]
          (sent (outcome (authenticate (ClientController (frame ''0123456789'')))))
   \<and> (\<exists>s'. authenticate (ClientController (frame ''0123456789A''))
               = Inl (RuntimeError ''Message size out of bounds'', s')
           \<and> handleClientConnection (ClientController (frame ''0123456789A'')) = Inr s'
           \<and> sent s' = [SERVER_SYNTAX_ERROR @ [TERMINATING_FIRST_CHAR, TERMINATING_SECOND_CHAR]])"
  using username_cap_ten [of "''0123456789''" "frame ''0123456789''"
      "ClientController (frame ''0123456789'')" "[]"]
    username_cap_ten [of "''0123456789A''" "frame ''0123456789A''"
      "ClientController (frame ''0123456789A'')" "[]"]
  by (simp add: frame_def ClientController_def TIMEOUT_def CLIENT_RECHARGING_def
      TERMINATING_FIRST_CHAR_def)

text \<open>
  Claim C1 as stated, with a cap of eighteen bytes, fails: on a username of eighteen bytes
  the reader gives up at the eleventh byte, and the session ends with \<open>301 SYNTAX ERROR\<close>
  as the only frame sent.
\<close>

theorem username_eighteen_counterexample:
  "handleClientConnection (ClientController (frame ''abcdefghijklmnopqr''))
     = Inr ((ClientController (drop 11 (frame ''abcdefghijklmnopqr'')))
              \<lparr>sent := [SERVER_SYNTAX_ERROR @ [TERMINATING_FIRST_CHAR, TERMINATING_SECOND_CHAR]],
               rcvtimeo := TIMEOUT\<rparr>)"
  by (simp add: handleClientConnection_def tryBlock_def authenticate_def readMsg.simps codec_defs)

section \<open>The confirmation frame (claims C3 and C4)\<close>

lemma isdigit_not_isspace: "isdigit c \<Longrightarrow> \<not> isspace c"
  by (auto simp: isdigit_def isspace_def)

lemma isdigit_not_sign: "isdigit c \<Longrightarrow> c \<noteq> CHR ''-'' \<and> c \<noteq> CHR ''+''"
  by (auto simp: isdigit_def)

lemma decimal_snoc: "decimal (ds @ [c]) = 10 * decimal ds + (of_char c - 48)"
  by (simp add: decimal_def)

lemma decimal_bound: "\<forall>c \<in> set ds. isdigit c \<Longrightarrow> decimal ds < 10 ^ length ds"
proof (induction ds rule: rev_induct)
  case Nil
  then show ?case by (simp add: decimal_def)
next
  case (snoc c ds)
  then have "decimal ds < 10 ^ length ds" and "(of_char c :: nat) - 48 \<le> 9"
    by (auto simp: isdigit_def)
  then show ?case by (simp add: decimal_snoc)
qed

lemma stoi_digits:
  assumes "ds \<noteq> []" and "length ds \<le> 5" and "\<forall>c \<in> set ds. isdigit c"
  shows "stoi ds = Inr (int (decimal ds))"
proof -
  from assms(1) obtain c cs where ds: "ds = c # cs" by (cases ds) auto
  with assms(3) have c: "isdigit c" by simp
  have dw: "dropWhile isspace ds = ds"
    using c ds by (simp add: isdigit_not_isspace)
  have sp: "sign_prefix ds = (False, ds)"
    using c ds isdigit_not_sign [of c] by simp
  have tw: "takeWhile isdigit ds = ds"
    using assms(3) by (simp add: takeWhile_eq_all_conv)
  have "decimal ds < 10 ^ length ds" using assms(3) by (rule decimal_bound)
  also have "(10::nat) ^ length ds \<le> 10 ^ 5"
    using assms(2) by (intro power_increasing) simp_all
  finally have "int (decimal ds) < 100000" by simp
  then show ?thesis
    using assms(1) by (simp add: stoi_def dw sp tw INT_MAX_def INT_MIN_def)
qed

lemma word16_eq_iff: "(word_of_int v :: 16 word) = w \<longleftrightarrow> v mod 65536 = uint w"
proof
  assume "(word_of_int v :: 16 word) = w"
  then have "uint (word_of_int v :: 16 word) = uint w" by simp
  then show "v mod 65536 = uint w" by (simp add: uint_word_of_int)
next
  assume "v mod 65536 = uint w"
  then have "uint (word_of_int v :: 16 word) = uint w" by (simp add: uint_word_of_int)
  then show "(word_of_int v :: 16 word) = w" by (simp only: word_uint_eq_iff)
qed

lemmas auth_defs = authenticate_def outcome_def computeHash_def schar_def SERVER_KEY_def
  CLIENT_KEY_def to_string.simps digit_char_def isdigit_def isspace_def stoi_def decimal_def
  INT_MAX_def INT_MIN_def SERVER_OK_def SERVER_LOGIN_FAILED_def

lemma session_a_76792:
  "authenticate (ClientController (frame ''a'' @ frame ''76792''))
     = Inr ((ClientController [])
            \<lparr>sent := [''20549'' @ [TERMINATING_FIRST_CHAR, TERMINATING_SECOND_CHAR],
                      SERVER_OK @ [TERMINATING_FIRST_CHAR, TERMINATING_SECOND_CHAR]],
             rcvtimeo := TIMEOUT\<rparr>)"
  by (simp add: readMsg.simps codec_defs auth_defs)

lemma confirmation_rejected:
  assumes "readMsg CLIENT_USERNAME_LENGTH s = Inr (userName, s1)"
    and "readMsg CLIENT_CONFIRMATION_LENGTH
           (sendResponse (to_string (unat (computeHash SERVER_KEY userName))) s1)
           = Inr (clientHash, s2)"
    and "5 < length clientHash \<or> (\<exists>c \<in> set clientHash. \<not> isdigit c)"
  shows "authenticate s = Inl (RuntimeError ''Authentication failed.'',
                               sendResponse SERVER_SYNTAX_ERROR s2)"
  using assms by (auto simp: authenticate_def Let_def list_ex_iff)

text \<open>
  Claim C3, at the input where the code departs from it. The lemma \<open>confirmation_rejected\<close>
  above covers a confirmation with more than five characters or with a character that is
  not a digit: \<open>301 SYNTAX ERROR\<close> is sent and \<open>authenticate\<close> throws. An empty
  confirmation passes both checks and reaches \<^verbatim>\<open>std::stoi\<close>, which throws
  \<^verbatim>\<open>std::invalid_argument\<close>. That is not a \<^verbatim>\<open>std::runtime_error\<close>, so
  \<open>handleClientConnection\<close> does not catch it, and the only frame sent is the server hash.
\<close>

theorem empty_confirmation_uncaught:
  "handleClientConnection (ClientController (frame ''Ab'' @ frame []))
     = Inl (LogicError ''stoi'',
            (ClientController [])
              \<lparr>sent := [''21013'' @ [TERMINATING_FIRST_CHAR, TERMINATING_SECOND_CHAR]],
               rcvtimeo := TIMEOUT\<rparr>)"
  by (simp add: handleClientConnection_def tryBlock_def readMsg.simps codec_defs auth_defs)

text \<open>
  Claim C4, as amended. For every confirmation of one to five decimal digits, the server
  sends \<open>200 OK\<close> if the decimal value of the confirmation, reduced modulo \<open>65536\<close> by the
  cast to \<^verbatim>\<open>uint16_t\<close>, equals \<open>(sum_of_schars username * 1000 + 45328) mod 65536\<close>;
  otherwise it sends \<open>300 LOGIN FAILED\<close> and \<open>authenticate\<close> throws.
\<close>

theorem confirmation_compared_modulo:
  assumes "readMsg CLIENT_USERNAME_LENGTH s = Inr (userName, s1)"
    and "readMsg CLIENT_CONFIRMATION_LENGTH
           (sendResponse (to_string (unat (computeHash SERVER_KEY userName))) s1)
           = Inr (clientHash, s2)"
    and "clientHash \<noteq> []" and "length clientHash \<le> 5"
    and "\<forall>c \<in> set clientHash. isdigit c"
  shows "authenticate s =
           (if int (decimal clientHash) mod 65536
                 = (sum_of_schars userName * 1000 + 45328) mod 65536
            then Inr (sendResponse SERVER_OK s2)
            else Inl (RuntimeError ''Authentication failed.'',
                      sendResponse SERVER_LOGIN_FAILED s2))"
proof -
  have ex: "\<not> list_ex (\<lambda>c. \<not> isdigit c) clientHash"
    using assms(5) by (simp add: list_ex_iff)
  have st: "stoi clientHash = Inr (int (decimal clientHash))"
    using assms(3,4,5) by (rule stoi_digits)
  have "(word_of_int (int (decimal clientHash)) :: 16 word) = computeHash CLIENT_KEY userName
          \<longleftrightarrow> int (decimal clientHash) mod 65536
                = (sum_of_schars userName * 1000 + 45328) mod 65536"
    by (simp only: word16_eq_iff uint_computeHash) (simp add: CLIENT_KEY_def)
  with assms(1,2,4) ex st show ?thesis
    by (simp add: authenticate_def Let_def)
qed

theorem confirmation_compared_modulo_witness:
  "readMsg CLIENT_USERNAME_LENGTH (ClientController (frame ''a'' @ frame ''11256''))
     = Inr (''a'', (ClientController (frame ''11256''))\<lparr>rcvtimeo := TIMEOUT\<rparr>)
   \<and> authenticate (ClientController (frame ''a'' @ frame ''11256''))
     = Inr (sendResponse SERVER_OK
             (sendResponse ''20549'' ((ClientController [])\<lparr>rcvtimeo := TIMEOUT\<rparr>)))
   \<and> authenticate (ClientController (frame ''a'' @ frame ''11257''))
     = Inl (RuntimeError ''Authentication failed.'',
            sendResponse SERVER_LOGIN_FAILED
             (sendResponse ''20549'' ((ClientController [])\<lparr>rcvtimeo := TIMEOUT\<rparr>)))"
proof -
  have h: "to_string (unat (computeHash SERVER_KEY ''a'')) = ''20549''"
    by (simp add: auth_defs)
  have u: "\<And>c. readMsg CLIENT_USERNAME_LENGTH (ClientController (frame ''a'' @ frame c))
     = Inr (''a'', (ClientController (frame c))\<lparr>rcvtimeo := TIMEOUT\<rparr>)"
    by (simp add: readMsg.simps codec_defs)
  have c1: "readMsg CLIENT_CONFIRMATION_LENGTH
           (sendResponse (to_string (unat (computeHash SERVER_KEY ''a'')))
              ((ClientController (frame ''11256''))\<lparr>rcvtimeo := TIMEOUT\<rparr>))
           = Inr (''11256'', sendResponse ''20549'' ((ClientController [])\<lparr>rcvtimeo := TIMEOUT\<rparr>))"
    unfolding h by (simp add: readMsg.simps codec_defs)
  have c2: "readMsg CLIENT_CONFIRMATION_LENGTH
           (sendResponse (to_string (unat (computeHash SERVER_KEY ''a'')))
              ((ClientController (frame ''11257''))\<lparr>rcvtimeo := TIMEOUT\<rparr>))
           = Inr (''11257'', sendResponse ''20549'' ((ClientController [])\<lparr>rcvtimeo := TIMEOUT\<rparr>))"
    unfolding h by (simp add: readMsg.simps codec_defs)
  have d: "\<forall>c \<in> set ''11256''. isdigit c" "\<forall>c \<in> set ''11257''. isdigit c"
    by (simp_all add: isdigit_def)
  from confirmation_compared_modulo [OF u c1 _ _ d(1)]
    confirmation_compared_modulo [OF u c2 _ _ d(2)] u [of "''11256''"]
  show ?thesis
    by (simp add: decimal_def sum_of_schars_def schar_def)
qed

text \<open>
  Claim C4 as stated fails where it says that a confirmation above \<open>65535\<close> is not accepted
  for being congruent to the expected hash: for the username \<open>a\<close> the expected hash is
  \<open>11256\<close>, and the confirmation \<open>76792 = 11256 + 65536\<close> is answered with \<open>200 OK\<close>.
\<close>

theorem congruent_confirmation_counterexample:
  "authenticate (ClientController (frame ''a'' @ frame ''76792''))
     = Inr ((ClientController [])
            \<lparr>sent := [''20549'' @ [TERMINATING_FIRST_CHAR, TERMINATING_SECOND_CHAR],
                      SERVER_OK @ [TERMINATING_FIRST_CHAR, TERMINATING_SECOND_CHAR]],
             rcvtimeo := TIMEOUT\<rparr>)
   \<and> int (decimal ''76792'') = 76792
   \<and> (int (sum_of_bytes ''a'') * 1000 + 45328) mod 65536 = 11256"
  by (simp add: session_a_76792) (simp add: decimal_def sum_of_bytes_def)

section \<open>Heading inference when both coordinates change (claim C5)\<close>

lemma updatePosition_Inr:
  "updatePosition message s = Inr s' \<Longrightarrow> \<exists>p. s' = s\<lparr>position := p\<rparr>"
  by (auto simp: updatePosition_def Let_def split: prod.splits if_splits option.splits)


lemmas nav_defs = handleClientConnection_def tryBlock_def getPosition_def getDirection_def
  updateDirection_def updatePosition_def extract_string_def extract_int_def good_def
  positionEquals_def TARGET_X_def TARGET_Y_def SERVER_MOVE_def SERVER_TURN_LEFT_def
  SERVER_TURN_RIGHT_def SERVER_PICK_UP_def SERVER_LOGOUT_def Let_def
  isdigit_def isspace_def decimal_def INT_MAX_def INT_MIN_def




section \<open>Rotation from an unknown heading (claim C10)\<close>

lemma rotateRight_unknown:
  "rotateRight s = Inr s1 \<Longrightarrow> direction s = UNKNOWN \<Longrightarrow> direction s1 = UNKNOWN"
  by (auto simp: rotateRight_def sendResponse_def split: sum.splits
           dest!: readMsg_Inr updatePosition_Inr)

lemma rotateLeft_unknown:
  "rotateLeft s = Inr s1 \<Longrightarrow> direction s = UNKNOWN \<Longrightarrow> direction s1 = UNKNOWN"
  by (auto simp: rotateLeft_def sendResponse_def split: sum.splits
           dest!: readMsg_Inr updatePosition_Inr)

lemma dirval_pos: "to \<noteq> UNKNOWN \<Longrightarrow> 0 < dirval to"
  by (cases to) simp_all

lemma rotateTo_unknown_step:
  assumes "direction s = UNKNOWN" and "to \<noteq> UNKNOWN"
  shows "rotateTo to s = (case rotateRight s of Inl e \<Rightarrow> Inl e | Inr s1 \<Rightarrow> rotateTo to s1)"
  using assms dirval_pos [of to] by (subst rotateTo.simps) (auto simp: Let_def)

lemma rotateTo_unknown_never_returns:
  "direction s = UNKNOWN \<Longrightarrow> to \<noteq> UNKNOWN \<Longrightarrow> rotateTo to s \<noteq> Inr s'"
proof (induction to s rule: rotateTo.induct)
  case (1 to s)
  show ?case
  proof (cases "rotateRight s")
    case (Inl e)
    with "1.prems" show ?thesis by (simp add: rotateTo_unknown_step)
  next
    case (Inr s1)
    with "1.prems" have "direction s1 = UNKNOWN" by (auto dest: rotateRight_unknown)
    moreover have "direction s \<noteq> to" using "1.prems" by simp
    ultimately have "rotateTo to s1 \<noteq> Inr s'"
      using "1.IH" [of "dirval to - dirval (direction s)" s1] "1.prems" Inr dirval_pos [of to]
      by simp
    with "1.prems" Inr show ?thesis by (simp add: rotateTo_unknown_step)
  qed
qed

lemma updatePosition_OK: "updatePosition ''OK -2 2'' s = Inr (s\<lparr>position := \<lparr>pos_x = - 2, pos_y = 2\<rparr>\<rparr>)"
  by (simp add: updatePosition_def extract_string_def extract_int_def good_def Let_def
      isspace_def isdigit_def decimal_def INT_MAX_def INT_MIN_def)

lemma rotateRight_confirmed:
  assumes "input s = frame ''OK -2 2'' @ rest" and "direction s = UNKNOWN"
  shows "rotateRight s =
           Inr (s\<lparr>input := rest,
                  sent := sent s @ [SERVER_TURN_RIGHT
                                     @ [TERMINATING_FIRST_CHAR, TERMINATING_SECOND_CHAR]],
                  rcvtimeo := TIMEOUT,
                  position := \<lparr>pos_x = - 2, pos_y = 2\<rparr>\<rparr>)"
proof -
  let ?s0 = "sendResponse SERVER_TURN_RIGHT s"
  have "readMsg CLIENT_OK_LENGTH ?s0 = Inr (''OK -2 2'', ?s0\<lparr>rcvtimeo := TIMEOUT, input := rest\<rparr>)"
    by (rule readMsg_frame [where evs = "frame ''OK -2 2''"])
       (simp_all add: assms frame_def CLIENT_OK_LENGTH_def TIMEOUT_def CLIENT_RECHARGING_def
          TERMINATING_FIRST_CHAR_def)
  then show ?thesis
    using assms(2) by (simp add: rotateRight_def updatePosition_OK sendResponse_def)
qed

lemma rotateRight_starved:
  assumes "input s = []"
  shows "rotateRight s =
           Inl (RuntimeError ''Timeout fired'',
                s\<lparr>sent := sent s @ [SERVER_TURN_RIGHT
                                     @ [TERMINATING_FIRST_CHAR, TERMINATING_SECOND_CHAR]],
                  rcvtimeo := TIMEOUT\<rparr>)"
  using assms
  by (simp add: rotateRight_def readMsg.simps readFromSocketWithWait_def readFromSocket_def
      sendResponse_def CLIENT_OK_LENGTH_def TERMINATING_SEQUENCE_LENGTH_def)

lemma rotateTo_unknown_confirmations:
  assumes "direction s = UNKNOWN" and "to \<noteq> UNKNOWN" and "input s = confirmations n"
  shows "\<exists>s'. rotateTo to s = Inl (RuntimeError ''Timeout fired'', s')
            \<and> sent s' = sent s @ replicate (Suc n)
                  (SERVER_TURN_RIGHT @ [TERMINATING_FIRST_CHAR, TERMINATING_SECOND_CHAR])"
  using assms
proof (induction n arbitrary: s)
  case 0
  then have "input s = []" by (simp add: confirmations_def)
  from rotateRight_starved [OF this] 0 show ?case
    by (simp add: rotateTo_unknown_step)
next
  case (Suc n)
  let ?tr = "SERVER_TURN_RIGHT @ [TERMINATING_FIRST_CHAR, TERMINATING_SECOND_CHAR]"
  let ?s1 = "s\<lparr>input := confirmations n, sent := sent s @ [?tr], rcvtimeo := TIMEOUT,
               position := \<lparr>pos_x = - 2, pos_y = 2\<rparr>\<rparr>"
  from Suc.prems(3) have "input s = frame ''OK -2 2'' @ confirmations n"
    by (simp add: confirmations_def)
  from rotateRight_confirmed [OF this Suc.prems(1)]
  have step: "rotateTo to s = rotateTo to ?s1"
    using Suc.prems by (simp add: rotateTo_unknown_step)
  from Suc.IH [of ?s1] Suc.prems obtain s'
    where "rotateTo to ?s1 = Inl (RuntimeError ''Timeout fired'', s')"
      and "sent s' = sent ?s1 @ replicate (Suc n) ?tr"
    by auto
  with step have "rotateTo to s = Inl (RuntimeError ''Timeout fired'', s')
      \<and> sent s' = sent s @ replicate (Suc (Suc n)) ?tr"
    by (simp add: replicate_app_Cons_same)
  then show ?case by blast
qed

lemma nextTarget_origin:
  "nextTarget \<lparr>pos_x = - 2, pos_y = 2\<rparr> = \<lparr>pos_x = - 1, pos_y = 2\<rparr>"
  by (simp add: nextTarget_def cmod_def cdiv_def TARGET_X_def TARGET_Y_def Let_def)

lemma session_lands_on_target:
  "\<exists>s'. handleClientConnection
          (ClientController (frame ''a'' @ frame ''11256'' @ frame ''OK -2 2'' @ frame []
                             @ confirmations n)) = Inr s'
      \<and> sent s' = [''20549'' @ [TERMINATING_FIRST_CHAR, TERMINATING_SECOND_CHAR],
                    SERVER_OK @ [TERMINATING_FIRST_CHAR, TERMINATING_SECOND_CHAR],
                    SERVER_MOVE @ [TERMINATING_FIRST_CHAR, TERMINATING_SECOND_CHAR],
                    SERVER_PICK_UP @ [TERMINATING_FIRST_CHAR, TERMINATING_SECOND_CHAR]]
                   @ replicate (Suc n)
                       (SERVER_TURN_RIGHT @ [TERMINATING_FIRST_CHAR, TERMINATING_SECOND_CHAR])"
proof -
  let ?hs = "[''20549'' @ [TERMINATING_FIRST_CHAR, TERMINATING_SECOND_CHAR],
              SERVER_OK @ [TERMINATING_FIRST_CHAR, TERMINATING_SECOND_CHAR]]"
  let ?mv = "SERVER_MOVE @ [TERMINATING_FIRST_CHAR, TERMINATING_SECOND_CHAR]"
  let ?pk = "SERVER_PICK_UP @ [TERMINATING_FIRST_CHAR, TERMINATING_SECOND_CHAR]"
  let ?tr = "SERVER_TURN_RIGHT @ [TERMINATING_FIRST_CHAR, TERMINATING_SECOND_CHAR]"
  let ?s1 = "\<lparr>input = frame ''OK -2 2'' @ frame [] @ confirmations n, sent = ?hs,
             rcvtimeo = TIMEOUT, position = \<lparr>pos_x = 0, pos_y = 0\<rparr>, direction = UNKNOWN\<rparr>"
  let ?s2 = "\<lparr>input = frame [] @ confirmations n, sent = ?hs @ [?mv],
             rcvtimeo = TIMEOUT, position = \<lparr>pos_x = - 2, pos_y = 2\<rparr>, direction = UNKNOWN\<rparr>"
  let ?s3 = "\<lparr>input = confirmations n, sent = ?hs @ [?mv, ?pk],
             rcvtimeo = TIMEOUT, position = \<lparr>pos_x = - 2, pos_y = 2\<rparr>, direction = UNKNOWN\<rparr>"
  have a: "authenticate
     (ClientController (frame ''a'' @ frame ''11256'' @ frame ''OK -2 2'' @ frame []
                        @ confirmations n)) = Inr ?s1"
    by (simp add: readMsg.simps codec_defs auth_defs)
  have b: "getPosition ?s1 = Inr ?s2"
    by (simp add: nav_defs moveRobot.simps readMsg.simps codec_defs)
  have c: "positionEquals ?s2 \<lparr>pos_x = TARGET_X, pos_y = TARGET_Y\<rparr>"
    by (simp add: nav_defs)
  have d: "pickSecretMsg ?s2 = Inr (False, ?s3)"
    by (simp add: pickSecretMsg_def nav_defs readMsg.simps codec_defs)
  from rotateTo_unknown_confirmations [of ?s3 RIGHT n] obtain s'
    where r: "rotateTo RIGHT ?s3 = Inl (RuntimeError ''Timeout fired'', s')"
      and s': "sent s' = sent ?s3 @ replicate (Suc n) ?tr"
    by auto
  have "navigate (nextTarget (position ?s3)) ?s3 = Inl (RuntimeError ''Timeout fired'', s')"
    using r by (simp add: nextTarget_origin navigate_def)
  with d have "scanLoop ?s2 = Inl (RuntimeError ''Timeout fired'', s')"
    by (subst scanLoop.simps) simp
  with a b c have "handleClientConnection
     (ClientController (frame ''a'' @ frame ''11256'' @ frame ''OK -2 2'' @ frame []
                        @ confirmations n)) = Inr s'"
    by (simp add: handleClientConnection_def tryBlock_def Let_def)
  with s' show ?thesis by simp
qed

text \<open>
  Claim C10. Let the heading be \<open>UNKNOWN\<close> and the target heading be one of \<open>UP\<close>,
  \<open>RIGHT\<close>, \<open>DOWN\<close>, \<open>LEFT\<close>. Then \<open>rotateTo\<close> never returns: whatever the socket
  delivers, it ends only by an exception of a read. A turn that succeeds leaves the heading
  \<open>UNKNOWN\<close>. For every \<open>n\<close>, a robot that confirms \<open>n\<close> turns and then falls silent
  has been sent \<open>n + 1\<close> frames \<open>104 TURN RIGHT\<close>, and nothing else, when the read times
  out: the server stops only when the robot does. The state is reached by a session whose
  first move lands on the target \<open>(-2, 2)\<close> and whose first pick-up returns an empty
  payload: after the handshake, \<open>102 MOVE\<close> and \<open>105 GET MESSAGE\<close>, every frame the
  server sends is \<open>104 TURN RIGHT\<close>.
\<close>

theorem rotateTo_unknown_turns_forever:
  "(direction s = UNKNOWN \<and> to \<noteq> UNKNOWN \<longrightarrow>
      (\<forall>s'. rotateTo to s \<noteq> Inr s')
      \<and> (\<forall>s1. rotateRight s = Inr s1 \<or> rotateLeft s = Inr s1 \<longrightarrow> direction s1 = UNKNOWN)
      \<and> (input s = confirmations n \<longrightarrow>
           (\<exists>s'. rotateTo to s = Inl (RuntimeError ''Timeout fired'', s')
                \<and> sent s' = sent s @ replicate (Suc n)
                     (SERVER_TURN_RIGHT @ [TERMINATING_FIRST_CHAR, TERMINATING_SECOND_CHAR]))))
   \<and> (\<exists>s'. handleClientConnection
          (ClientController (frame ''a'' @ frame ''11256'' @ frame ''OK -2 2'' @ frame []
                             @ confirmations n)) = Inr s'
      \<and> sent s' = [''20549'' @ [TERMINATING_FIRST_CHAR, TERMINATING_SECOND_CHAR],
                    SERVER_OK @ [TERMINATING_FIRST_CHAR, TERMINATING_SECOND_CHAR],
                    SERVER_MOVE @ [TERMINATING_FIRST_CHAR, TERMINATING_SECOND_CHAR],
                    SERVER_PICK_UP @ [TERMINATING_FIRST_CHAR, TERMINATING_SECOND_CHAR]]
                   @ replicate (Suc n)
                       (SERVER_TURN_RIGHT @ [TERMINATING_FIRST_CHAR, TERMINATING_SECOND_CHAR]))"
proof (intro conjI impI allI)
  fix s'
  assume "direction s = UNKNOWN \<and> to \<noteq> UNKNOWN"
  then show "rotateTo to s \<noteq> Inr s'" by (simp add: rotateTo_unknown_never_returns)
next
  fix s1
  assume "direction s = UNKNOWN \<and> to \<noteq> UNKNOWN" and "rotateRight s = Inr s1 \<or> rotateLeft s = Inr s1"
  then show "direction s1 = UNKNOWN"
    by (auto dest: rotateRight_unknown rotateLeft_unknown)
next
  assume "direction s = UNKNOWN \<and> to \<noteq> UNKNOWN" and "input s = confirmations n"
  then show "\<exists>s'. rotateTo to s = Inl (RuntimeError ''Timeout fired'', s')
                \<and> sent s' = sent s @ replicate (Suc n)
                     (SERVER_TURN_RIGHT @ [TERMINATING_FIRST_CHAR, TERMINATING_SECOND_CHAR])"
    using rotateTo_unknown_confirmations [of s to n] by blast
next
  show "\<exists>s'. handleClientConnection
          (ClientController (frame ''a'' @ frame ''11256'' @ frame ''OK -2 2'' @ frame []
                             @ confirmations n)) = Inr s'
      \<and> sent s' = [''20549'' @ [TERMINATING_FIRST_CHAR, TERMINATING_SECOND_CHAR],
                    SERVER_OK @ [TERMINATING_FIRST_CHAR, TERMINATING_SECOND_CHAR],
                    SERVER_MOVE @ [TERMINATING_FIRST_CHAR, TERMINATING_SECOND_CHAR],
                    SERVER_PICK_UP @ [TERMINATING_FIRST_CHAR, TERMINATING_SECOND_CHAR]]
                   @ replicate (Suc n)
                       (SERVER_TURN_RIGHT @ [TERMINATING_FIRST_CHAR, TERMINATING_SECOND_CHAR])"
    by (rule session_lands_on_target)
qed

theorem rotateTo_unknown_turns_forever_witness:
  "direction (ClientController (confirmations 2)) = UNKNOWN \<and> UP \<noteq> UNKNOWN
   \<and> (\<exists>s1. rotateRight (ClientController (confirmations 2)) = Inr s1 \<and> direction s1 = UNKNOWN)
   \<and> (\<exists>s'. rotateTo UP (ClientController (confirmations 2))
               = Inl (RuntimeError ''Timeout fired'', s')
           \<and> sent s' = replicate 3
                (SERVER_TURN_RIGHT @ [TERMINATING_FIRST_CHAR, TERMINATING_SECOND_CHAR]))"
proof -
  have u: "direction (ClientController (confirmations 2)) = UNKNOWN"
    and i: "input (ClientController (confirmations 2)) = frame ''OK -2 2'' @ confirmations 1"
    and e: "sent (ClientController (confirmations 2)) = []"
    by (simp_all add: ClientController_def confirmations_def numeral_2_eq_2)
  note t = rotateTo_unknown_turns_forever [of "ClientController (confirmations 2)" UP 2]
  from t u have "\<forall>s1. rotateRight (ClientController (confirmations 2)) = Inr s1
                    \<longrightarrow> direction s1 = UNKNOWN"
    by simp
  with rotateRight_confirmed [OF i u]
  have "\<exists>s1. rotateRight (ClientController (confirmations 2)) = Inr s1 \<and> direction s1 = UNKNOWN"
    by simp
  moreover from t u e
  have "\<exists>s'. rotateTo UP (ClientController (confirmations 2))
               = Inl (RuntimeError ''Timeout fired'', s')
           \<and> sent s' = replicate 3
                (SERVER_TURN_RIGHT @ [TERMINATING_FIRST_CHAR, TERMINATING_SECOND_CHAR])"
    by (simp add: ClientController_def numeral_3_eq_3)
  ultimately show ?thesis using u by simp
qed

end
